theory Spec2Isabelle
  imports Complex_Main
begin

section \<open>The geodetic direction-finding engine of SATER-Map (src/main.py)\<close>

text \<open>
  The functions of \<^verbatim>\<open>src/main.py\<close> between \<^verbatim>\<open>dms_to_dd\<close> and
  \<^verbatim>\<open>calculate_uncertainty_circle\<close> are embedded one by one. Python floats are
  idealised as real numbers: \<^verbatim>\<open>sin\<close>, \<^verbatim>\<open>cos\<close>, \<^verbatim>\<open>sqrt\<close> and the
  arithmetic are exact, so a statement below is a statement about the algorithm and not
  about binary rounding. What Python raises is a value of \<open>py_error\<close>. Rounding
  decides which path runs in one place, the domain check of \<^verbatim>\<open>asin\<close> in
  \<^verbatim>\<open>calc_endpoint_haversine\<close>: that function is also embedded in binary64 arithmetic.
\<close>

subsection \<open>Python primitives\<close>

datatype py_error = IndexError | ValueError | InvalidInput
  \<comment> \<open>\<open>IndexError\<close>: a sequence index out of range; \<open>ValueError\<close>: a math domain error;
      \<open>InvalidInput\<close> is the error the specification names: no path of the source raises it.\<close>

definition radians :: "real \<Rightarrow> real" where
  "radians x = x * pi / 180"

definition degrees :: "real \<Rightarrow> real" where
  "degrees x = x * 180 / pi"

definition py_int :: "real \<Rightarrow> int" where
  \<comment> \<open>\<^verbatim>\<open>int(x)\<close> on a float truncates towards zero.\<close>
  "py_int x = (if 0 \<le> x then \<lfloor>x\<rfloor> else \<lceil>x\<rceil>)"

definition round_half_even :: "real \<Rightarrow> int" where
  "round_half_even x =
     (let f = \<lfloor>x\<rfloor>; r = x - of_int f
      in if r < 1 / 2 then f
         else if 1 / 2 < r then f + 1
         else if even f then f else f + 1)"

definition py_round :: "real \<Rightarrow> nat \<Rightarrow> real" where
  \<comment> \<open>\<^verbatim>\<open>round(x, n)\<close>: to \<open>n\<close> decimals, ties to the even neighbour.\<close>
  "py_round x n = of_int (round_half_even (x * 10 ^ n)) / 10 ^ n"

definition py_fmod :: "real \<Rightarrow> real \<Rightarrow> real" where
  \<comment> \<open>\<^verbatim>\<open>x % y\<close> on floats, for \<open>y > 0\<close>: the result has the sign of \<open>y\<close>.\<close>
  "py_fmod x y = x - y * of_int \<lfloor>x / y\<rfloor>"

definition py_index :: "'a list \<Rightarrow> int \<Rightarrow> py_error + 'a" where
  \<comment> \<open>\<^verbatim>\<open>xs[i]\<close>: an index in \<open>[-len, 0)\<close> counts from the end, one outside
      \<open>[-len, len)\<close> raises.\<close>
  "py_index xs i =
     (if 0 \<le> i \<and> i < int (length xs) then Inr (xs ! nat i)
      else if - int (length xs) \<le> i \<and> i < 0 then Inr (xs ! nat (i + int (length xs)))
      else Inl IndexError)"

definition py_asin :: "real \<Rightarrow> py_error + real" where
  \<comment> \<open>\<^verbatim>\<open>math.asin\<close> raises ValueError outside \<open>[-1, 1]\<close>.\<close>
  "py_asin x = (if - 1 \<le> x \<and> x \<le> 1 then Inr (arcsin x) else Inl ValueError)"

definition atan2 :: "real \<Rightarrow> real \<Rightarrow> real" where
  \<comment> \<open>\<^verbatim>\<open>math.atan2(y, x)\<close>, with result in \<open>(-pi, pi]\<close> and \<open>atan2 0 0 = 0\<close>.\<close>
  "atan2 y x =
     (if 0 < x then arctan (y / x)
      else if x < 0 then (if 0 \<le> y then arctan (y / x) + pi else arctan (y / x) - pi)
      else if 0 < y then pi / 2
      else if y < 0 then - (pi / 2)
      else 0)"

subsection \<open>Coordinate conversions\<close>

definition dms_to_dd :: "int \<Rightarrow> int \<Rightarrow> real \<Rightarrow> string \<Rightarrow> py_error + real" where
  \<comment> \<open>The source has no range check and no raise: every input gives a value.\<close>
  "dms_to_dd deg minutes seconds direction =
     (let dd = of_int deg + (of_int minutes / 60) + (seconds / 3600);
          dd = (if direction \<in> set [''W'', ''S''] then - dd else dd)
      in Inr (py_round dd 6))"

definition dd_to_dms :: "real \<Rightarrow> string \<Rightarrow> int \<times> int \<times> real \<times> string" where
  "dd_to_dms dd0 coord_type =
     (let is_positive = (0 \<le> dd0);
          dd = \<bar>dd0\<bar>;
          deg = py_int dd;
          minutes = py_int ((dd - of_int deg) * 60);
          seconds = py_round ((dd - of_int deg - of_int minutes / 60) * 3600) 2;
          direction = (if coord_type = ''lat''
                       then (if is_positive then ''N'' else ''S'')
                       else (if is_positive then ''E'' else ''W''))
      in (deg, minutes, seconds, direction))"

definition utm_zone :: "real \<Rightarrow> real \<Rightarrow> int" where
  \<comment> \<open>Lines 206 to 218 of \<^verbatim>\<open>lat_lon_to_utm\<close>: the zone number and its overrides.\<close>
  "utm_zone lat lon =
     (let zone = py_int ((lon + 180) / 6) + 1
      in if 56 \<le> lat \<and> lat < 64 \<and> 3 \<le> lon \<and> lon < 12 then 32
         else if 72 \<le> lat \<and> lat < 84 then
           (if 0 \<le> lon \<and> lon < 9 then 31
            else if 9 \<le> lon \<and> lon < 21 then 33
            else if 21 \<le> lon \<and> lon < 33 then 35
            else if 33 \<le> lon \<and> lon < 42 then 37
            else zone)
         else zone)"

definition band_index :: "real \<Rightarrow> int" where
  "band_index lat = py_int ((lat + 80) / 8)"

definition utm_letter :: "real \<Rightarrow> py_error + char" where
  \<comment> \<open>Lines 220 to 224 of \<^verbatim>\<open>lat_lon_to_utm\<close>: the latitude band letter.\<close>
  "utm_letter lat =
     (let letters = ''CDEFGHJKLMNPQRSTUVWXX''
      in if - 80 \<le> lat \<and> lat \<le> 84 then py_index letters (band_index lat)
         else Inr (CHR ''Z''))"

definition lat_lon_to_utm :: "real \<Rightarrow> real \<Rightarrow> py_error + (int \<times> char \<times> real \<times> real)" where
  "lat_lon_to_utm lat lon =
     (case utm_letter lat of
        Inl err \<Rightarrow> Inl err
      | Inr letter \<Rightarrow>
          (let zone = utm_zone lat lon;
               a = 6378137;
               f = 1 / 298.257223563;
               k0 = 0.9996;
               e = sqrt (f * (2 - f));
               e2 = e * e;
               ep2 = e2 / (1 - e2);
               lon0 = radians (of_int ((zone - 1) * 6 - 180 + 3));
               lat_rad = radians lat;
               lon_rad = radians lon;
               N = a / sqrt (1 - e2 * (sin lat_rad)\<^sup>2);
               T = (tan lat_rad)\<^sup>2;
               C = ep2 * (cos lat_rad)\<^sup>2;
               A = (lon_rad - lon0) * cos lat_rad;
               M = a * ((1 - e2 / 4 - 3 * e2\<^sup>2 / 64 - 5 * e2 ^ 3 / 256) * lat_rad
                        - (3 * e2 / 8 + 3 * e2\<^sup>2 / 32 + 45 * e2 ^ 3 / 1024) * sin (2 * lat_rad)
                        + (15 * e2\<^sup>2 / 256 + 45 * e2 ^ 3 / 1024) * sin (4 * lat_rad)
                        - (35 * e2 ^ 3 / 3072) * sin (6 * lat_rad));
               easting = k0 * N * (A + (1 - T + C) * A ^ 3 / 6
                           + (5 - 18 * T + T\<^sup>2 + 72 * C - 58 * ep2) * A ^ 5 / 120) + 500000;
               northing = k0 * (M + N * tan lat_rad * (A\<^sup>2 / 2
                           + (5 - T + 9 * C + 4 * C\<^sup>2) * A ^ 4 / 24
                           + (61 - 58 * T + T\<^sup>2 + 600 * C - 330 * ep2) * A ^ 6 / 720));
               northing = (if lat < 0 then northing + 10000000 else northing)
           in Inr (zone, letter, easting, northing)))"

definition mgrs_col_idx :: "real \<Rightarrow> int" where
  \<comment> \<open>Lines 267 to 271 of \<^verbatim>\<open>lat_lon_to_mgrs\<close>: the column index and its two clamps.\<close>
  "mgrs_col_idx easting =
     (let col_idx = py_int (easting / 100000) - 1;
          col_idx = (if col_idx < 0 then 0 else col_idx);
          col_idx = (if 7 < col_idx then 7 else col_idx)
      in col_idx)"

definition lat_lon_to_mgrs ::
  "real \<Rightarrow> real \<Rightarrow> py_error + (int \<times> char \<times> char \<times> char \<times> int \<times> int)" where
  \<comment> \<open>The result lists the six fields that the source's f-string prints, in its order:
      zone, band letter, column letter, row letter, and the two five-digit remainders.\<close>
  "lat_lon_to_mgrs lat lon =
     (case lat_lon_to_utm lat lon of
        Inl err \<Rightarrow> Inl err
      | Inr (zone, letter, easting, northing) \<Rightarrow>
          (let set_number = zone mod 6;
               set_number = (if set_number = 0 then 6 else set_number);
               col_letters = [''ABCDEFGH'', ''JKLMNPQR'', ''STUVWXYZ'',
                              ''ABCDEFGH'', ''JKLMNPQR'', ''STUVWXYZ''];
               col_idx = mgrs_col_idx easting
           in case py_index col_letters (set_number - 1) of
                Inl err \<Rightarrow> Inl err
              | Inr col_row \<Rightarrow>
                 (case py_index col_row col_idx of
                    Inl err \<Rightarrow> Inl err
                  | Inr col_letter \<Rightarrow>
                     (let row_letters = ''ABCDEFGHJKLMNPQRSTUV'';
                          row_idx = py_int (northing / 100000) mod 20
                      in case py_index row_letters (row_idx mod 20) of
                           Inl err \<Rightarrow> Inl err
                         | Inr row_letter \<Rightarrow>
                            (let e_100k = py_int (py_fmod easting 100000);
                                 n_100k = py_int (py_fmod northing 100000)
                             in Inr (zone, letter, col_letter, row_letter, e_100k, n_100k))))))"

subsection \<open>Bearing projection\<close>

definition calc_endpoint_haversine ::
  "real \<Rightarrow> real \<Rightarrow> real \<Rightarrow> real \<Rightarrow> py_error + (real \<times> real)" where
  \<comment> \<open>In exact arithmetic: here the argument of \<^verbatim>\<open>asin\<close> never leaves \<open>[-1, 1]\<close> and
      the error branch is dead; the doubles can reach it, see
      \<open>calc_endpoint_haversine_double\<close>.\<close>
  "calc_endpoint_haversine lat lon azimuth dist_km =
     (let R = 6371;
          lat1 = radians lat;
          lon1 = radians lon;
          brng = radians azimuth
      in case py_asin (sin lat1 * cos (dist_km / R) + cos lat1 * sin (dist_km / R) * cos brng) of
           Inl err \<Rightarrow> Inl err
         | Inr lat2 \<Rightarrow>
            (let lon2 = lon1 + atan2 (sin brng * sin (dist_km / R) * cos lat1)
                                     (cos (dist_km / R) - sin lat1 * sin lat2)
             in Inr (degrees lat2, degrees lon2)))"

subsection \<open>The projection in binary64 arithmetic\<close>

text \<open>
  Exact arithmetic cannot leave the domain of \<^verbatim>\<open>asin\<close>; the doubles of the program can,
  because every operation rounds. To see which path of \<^verbatim>\<open>calc_endpoint_haversine\<close>
  runs, the same body is written once more with the rounding \<open>fl\<close> applied to the
  result of every operation, in the order in which Python evaluates them.
  \<^verbatim>\<open>math.radians(x)\<close> is \<open>x\<close> times the double constant \<open>pi / 180\<close> and
  \<^verbatim>\<open>math.degrees(x)\<close> is \<open>x\<close> times the double constant \<open>180 / pi\<close>. The
  library functions are taken to return the double nearest to the exact value.
\<close>

definition double_round :: "real \<Rightarrow> real" where
  \<comment> \<open>The binary64 number nearest to \<open>x\<close>, with 53 significant bits and ties to the
      even mantissa; the exponent range is not modelled (no overflow, no subnormals).\<close>
  "double_round x =
     (if x = 0 then 0
      else (let ulp = 2 powi (\<lfloor>log 2 \<bar>x\<bar>\<rfloor> - 52)
            in of_int (round_half_even (x / ulp)) * ulp))"

definition calc_endpoint_haversine_rounded ::
  "(real \<Rightarrow> real) \<Rightarrow> real \<Rightarrow> real \<Rightarrow> real \<Rightarrow> real \<Rightarrow> py_error + (real \<times> real)" where
  \<comment> \<open>Lines 284 to 294 with the rounding \<open>fl\<close> as a parameter; \<open>q\<close> stands for the
      quotient \<^verbatim>\<open>dist_km / R\<close>, which the source writes out at each use.\<close>
  "calc_endpoint_haversine_rounded fl lat lon azimuth dist_km =
     (let deg_to_rad = fl (fl pi / 180); rad_to_deg = fl (180 / fl pi);
          R = 6371;
          lat1 = fl (lat * deg_to_rad);
          lon1 = fl (lon * deg_to_rad);
          brng = fl (azimuth * deg_to_rad);
          q = fl (dist_km / R)
      in case py_asin (fl (fl (fl (sin lat1) * fl (cos q))
                           + fl (fl (fl (cos lat1) * fl (sin q)) * fl (cos brng)))) of
           Inl err \<Rightarrow> Inl err
         | Inr a \<Rightarrow>
            (let lat2 = fl a;
                 lon2 = fl (lon1 + fl (atan2 (fl (fl (fl (sin brng) * fl (sin q)) * fl (cos lat1)))
                                             (fl (fl (cos q) - fl (fl (sin lat1) * fl (sin lat2))))))
             in Inr (fl (lat2 * rad_to_deg), fl (lon2 * rad_to_deg))))"

definition calc_endpoint_haversine_double ::
  "real \<Rightarrow> real \<Rightarrow> real \<Rightarrow> real \<Rightarrow> py_error + (real \<times> real)" where
  \<comment> \<open>\<^verbatim>\<open>calc_endpoint_haversine\<close> as the doubles compute it; the arguments are doubles.\<close>
  "calc_endpoint_haversine_double = calc_endpoint_haversine_rounded double_round"

subsection \<open>Pairwise intersection\<close>

definition line_intersection ::
  "real \<times> real \<Rightarrow> real \<times> real \<Rightarrow> real \<times> real \<Rightarrow> real \<times> real \<Rightarrow> (real \<times> real) option" where
  "line_intersection p1 p2 p3 p4 =
     (let x1 = fst p1; y1 = snd p1;
          x2 = fst p2; y2 = snd p2;
          x3 = fst p3; y3 = snd p3;
          x4 = fst p4; y4 = snd p4;
          denom = (x1 - x2) * (y3 - y4) - (y1 - y2) * (x3 - x4)
      in if \<bar>denom\<bar> < 1 / 10 ^ 10 then None
         else (let t = ((x1 - x3) * (y3 - y4) - (y1 - y3) * (x3 - x4)) / denom;
                   px = x1 + t * (x2 - x1);
                   py = y1 + t * (y2 - y1)
               in Some (px, py)))"

record station =
  callsign :: string
  lat :: real
  lon :: real
  azimuth :: real
  uncertainty :: real
  color :: string
  visible :: bool
  signal :: string
  notes_text :: string
  station_id :: string

definition angle_diff :: "real \<Rightarrow> real \<Rightarrow> real" where
  \<comment> \<open>Lines 346 to 352: \<^verbatim>\<open>diff = abs(dir - az); if diff > pi: diff = 2 * pi - diff\<close>.\<close>
  "angle_diff dir_to_inter dir_azimuth =
     (let diff = \<bar>dir_to_inter - dir_azimuth\<bar>
      in if pi < diff then 2 * pi - diff else diff)"

definition forward_filter :: "station \<Rightarrow> station \<Rightarrow> real \<times> real \<Rightarrow> (real \<times> real) option" where
  \<comment> \<open>Lines 336 to 357: the body of \<^verbatim>\<open>if inter:\<close>; \<open>Some (lat, lon)\<close> is the point
      appended to \<^verbatim>\<open>intersections\<close>, \<open>None\<close> means that nothing is appended.\<close>
  "forward_filter s1 s2 inter_xy =
     (let int_lon = fst inter_xy; int_lat = snd inter_xy;
          dir1_to_inter = atan2 (int_lon - lon s1) (int_lat - lat s1);
          dir1_azimuth = radians (azimuth s1);
          dir2_to_inter = atan2 (int_lon - lon s2) (int_lat - lat s2);
          dir2_azimuth = radians (azimuth s2);
          diff1 = angle_diff dir1_to_inter dir1_azimuth;
          diff2 = angle_diff dir2_to_inter dir2_azimuth
      in if diff1 < pi / 2 \<and> diff2 < pi / 2 then
           (if - 90 \<le> int_lat \<and> int_lat \<le> 90 \<and> - 180 \<le> int_lon \<and> int_lon \<le> 180
            then Some (int_lat, int_lon) else None)
         else None)"

definition chord_intersection ::
  "station \<Rightarrow> station \<Rightarrow> real \<times> real \<Rightarrow> real \<times> real \<Rightarrow> (real \<times> real) option" where
  \<comment> \<open>Lines 330 to 357: the crossing of the two chords, from each station to its
      projected endpoint \<open>(lat, lon)\<close>, then the forward filter.\<close>
  "chord_intersection s1 s2 end1 end2 =
     (case line_intersection (lon s1, lat s1) (snd end1, fst end1)
                             (lon s2, lat s2) (snd end2, fst end2) of
        None \<Rightarrow> None
      | Some inter_xy \<Rightarrow> forward_filter s1 s2 inter_xy)"

definition pair_intersection ::
  "station \<Rightarrow> station \<Rightarrow> real \<Rightarrow> py_error + (real \<times> real) option" where
  \<comment> \<open>Lines 323 to 357: one pass of the inner loop of
      \<^verbatim>\<open>calculate_all_intersections\<close> for the pair \<open>(s1, s2)\<close>.\<close>
  "pair_intersection s1 s2 azimuth_length_km =
     (case calc_endpoint_haversine (lat s1) (lon s1) (azimuth s1) azimuth_length_km of
        Inl err \<Rightarrow> Inl err
      | Inr end1 \<Rightarrow>
         (case calc_endpoint_haversine (lat s2) (lon s2) (azimuth s2) azimuth_length_km of
            Inl err \<Rightarrow> Inl err
          | Inr end2 \<Rightarrow> Inr (chord_intersection s1 s2 end1 end2)))"

fun intersections_inner ::
  "station \<Rightarrow> station list \<Rightarrow> real \<Rightarrow> (real \<times> real) list \<Rightarrow> py_error + (real \<times> real) list" where
  "intersections_inner s1 [] d intersections = Inr intersections"
| "intersections_inner s1 (s2 # rest) d intersections =
     (case pair_intersection s1 s2 d of
        Inl err \<Rightarrow> Inl err
      | Inr None \<Rightarrow> intersections_inner s1 rest d intersections
      | Inr (Some p) \<Rightarrow> intersections_inner s1 rest d (intersections @ [p]))"

fun intersections_outer ::
  "station list \<Rightarrow> real \<Rightarrow> (real \<times> real) list \<Rightarrow> py_error + (real \<times> real) list" where
  "intersections_outer [] d intersections = Inr intersections"
| "intersections_outer (s1 # rest) d intersections =
     (case intersections_inner s1 rest d intersections of
        Inl err \<Rightarrow> Inl err
      | Inr intersections' \<Rightarrow> intersections_outer rest d intersections')"

definition calculate_all_intersections ::
  "station list \<Rightarrow> real \<Rightarrow> py_error + (real \<times> real) list" where
  \<comment> \<open>The loops over \<open>i\<close> and \<open>j > i\<close> visit the pairs in the order of the two
      recursions: the head of the list with each later station, then the tail.\<close>
  "calculate_all_intersections stations azimuth_length_km =
     intersections_outer stations azimuth_length_km []"

subsection \<open>Uncertainty circle\<close>

definition distance_km :: "real \<Rightarrow> real \<Rightarrow> real \<Rightarrow> real \<Rightarrow> real" where
  "distance_km lat1 lon1 lat2 lon2 =
     (let dlat = (lat2 - lat1) * 111;
          dlon = (lon2 - lon1) * 111 * cos (radians ((lat1 + lat2) / 2))
      in sqrt (dlat\<^sup>2 + dlon\<^sup>2))"

type_synonym diameter_state = "real \<times> (real \<times> real) \<times> (real \<times> real)"

fun diameter_inner :: "real \<times> real \<Rightarrow> (real \<times> real) list \<Rightarrow> diameter_state \<Rightarrow> diameter_state" where
  \<comment> \<open>Lines 385 to 389, for a fixed \<open>points[i]\<close> and the points after it.\<close>
  "diameter_inner p_i [] st = st"
| "diameter_inner p_i (p_j # rest) (max_dist, p1, p2) =
     (let d = distance_km (fst p_i) (snd p_i) (fst p_j) (snd p_j)
      in diameter_inner p_i rest (if max_dist < d then (d, p_i, p_j) else (max_dist, p1, p2)))"

fun diameter_outer :: "(real \<times> real) list \<Rightarrow> diameter_state \<Rightarrow> diameter_state" where
  "diameter_outer [] st = st"
| "diameter_outer (p_i # rest) st = diameter_outer rest (diameter_inner p_i rest st)"

fun grow_sweep :: "(real \<times> real) list \<Rightarrow> real \<times> real \<times> real \<Rightarrow> real \<times> real \<times> real" where
  \<comment> \<open>Lines 395 to 402; the state is \<open>(center_lat, center_lon, radius)\<close>.\<close>
  "grow_sweep [] st = st"
| "grow_sweep (p # rest) (center_lat, center_lon, radius) =
     (let d = distance_km center_lat center_lon (fst p) (snd p)
      in if radius < d then
           (let new_radius = (radius + d) / 2;
                ratio = (if 0 < d then (new_radius - radius) / d else 0)
            in grow_sweep rest (center_lat + ratio * (fst p - center_lat),
                                center_lon + ratio * (snd p - center_lon),
                                new_radius))
         else grow_sweep rest (center_lat, center_lon, radius))"

fun verify_sweep :: "(real \<times> real) list \<Rightarrow> real \<Rightarrow> real \<Rightarrow> real \<Rightarrow> real" where
  \<comment> \<open>Lines 404 to 407: the centre is fixed, the radius grows to each farther point.\<close>
  "verify_sweep [] center_lat center_lon radius = radius"
| "verify_sweep (p # rest) center_lat center_lon radius =
     (let d = distance_km center_lat center_lon (fst p) (snd p)
      in verify_sweep rest center_lat center_lon (if radius < d then d else radius))"

definition smallest_enclosing_circle :: "(real \<times> real) list \<Rightarrow> real \<times> real \<times> real" where
  "smallest_enclosing_circle points =
     (case points of
        [] \<Rightarrow> (0, 0, 0)
      | [p] \<Rightarrow> (fst p, snd p, 0.5)
      | [p1, p2] \<Rightarrow>
          (let center_lat = (fst p1 + fst p2) / 2;
               center_lon = (snd p1 + snd p2) / 2;
               radius = distance_km center_lat center_lon (fst p1) (snd p1)
           in (center_lat, center_lon, max radius 0.5))
      | q0 # q1 # _ \<Rightarrow>
          (let (max_dist, p1, p2) = diameter_outer points (0, q0, q1);
               center_lat = (fst p1 + fst p2) / 2;
               center_lon = (snd p1 + snd p2) / 2;
               radius = max_dist / 2;
               (center_lat, center_lon, radius) = grow_sweep points (center_lat, center_lon, radius);
               radius = verify_sweep points center_lat center_lon radius
           in (center_lat, center_lon, max radius 0.5)))"


subsection \<open>The fix reported for a mission\<close>

record intersection_info =
  center_lat :: real
  center_lon :: real
  radius_km :: real
  surface_km2 :: real
  mgrs :: "int \<times> char \<times> char \<times> char \<times> int \<times> int"
  point_count :: nat


subsection \<open>Auxiliary notions used to state the properties\<close>

definition dms_sign :: "string \<Rightarrow> real" where
  \<comment> \<open>The sign that \<^verbatim>\<open>dms_to_dd\<close> gives to a hemisphere letter.\<close>
  "dms_sign direction = (if direction = ''W'' \<or> direction = ''S'' then - 1 else 1)"

definition valid_dd :: "string \<Rightarrow> real \<Rightarrow> bool" where
  \<comment> \<open>The range of a decimal-degree value on its axis.\<close>
  "valid_dd coord_type dd =
     (if coord_type = ''lat'' then - 90 \<le> dd \<and> dd \<le> 90 else - 180 \<le> dd \<and> dd \<le> 180)"

definition new_station :: "string \<Rightarrow> real \<Rightarrow> real \<Rightarrow> real \<Rightarrow> string \<Rightarrow> station" where
  \<comment> \<open>A station with the default field values of the \<^verbatim>\<open>Station\<close> dataclass.\<close>
  "new_station cs la lo az sid =
     \<lparr>callsign = cs, lat = la, lon = lo, azimuth = az, uncertainty = 5, color = ''#e74c3c'',
      visible = True, signal = ''S5'', notes_text = [], station_id = sid\<rparr>"



definition station_mid_east :: station where
  "station_mid_east = new_station ''F4CCC'' 45 0 90 ''c''"

definition station_mid_north :: station where
  "station_mid_north = new_station ''F4DDD'' (89 / 2) (1 / 2) 0 ''d''"

definition on_segment :: "real \<times> real \<Rightarrow> real \<times> real \<Rightarrow> real \<times> real \<Rightarrow> bool" where
  \<comment> \<open>The point \<open>p\<close> lies on the planar segment from \<open>a\<close> to \<open>b\<close>.\<close>
  "on_segment a b p =
     (\<exists>t. 0 \<le> t \<and> t \<le> 1 \<and> fst p = fst a + t * (fst b - fst a) \<and> snd p = snd a + t * (snd b - snd a))"

definition within_chords :: "station \<Rightarrow> station \<Rightarrow> real \<Rightarrow> real \<times> real \<Rightarrow> bool" where
  \<comment> \<open>The point \<open>p = (lat, lon)\<close> lies on both chords drawn for the projection distance
      \<open>d\<close>, each from a station to its projected endpoint: neither chord is too short to
      reach \<open>p\<close>.\<close>
  "within_chords s1 s2 d p =
     (case calc_endpoint_haversine (lat s1) (lon s1) (azimuth s1) d of
        Inl err \<Rightarrow> False
      | Inr end1 \<Rightarrow>
         (case calc_endpoint_haversine (lat s2) (lon s2) (azimuth s2) d of
            Inl err \<Rightarrow> False
          | Inr end2 \<Rightarrow> on_segment (lat s1, lon s1) end1 p \<and> on_segment (lat s2, lon s2) end2 p))"

definition drop_ratio :: "real \<Rightarrow> real" where
  \<comment> \<open>By how many degrees the chord of \<open>station_mid_east\<close> (latitude 45, bearing 90) has
      dropped south one degree of longitude further east, for a projection distance \<open>d\<close>.\<close>
  "drop_ratio d = (pi / 4 - arcsin (sqrt 2 / 2 * cos (d / 6371))) / arctan (sqrt 2 * tan (d / 6371))"

definition wrapped_deviation :: "real \<Rightarrow> real \<Rightarrow> real" where
  \<comment> \<open>The absolute angular deviation between two directions, wrap-normalised into
      \<open>[0, pi]\<close>, as the specification words it: reduce the difference modulo a full turn,
      then take the shorter way round.\<close>
  "wrapped_deviation a b =
     (let d = py_fmod (a - b) (2 * pi) in if pi < d then 2 * pi - d else d)"

definition polar_station :: station where
  "polar_station = new_station ''F4EEE'' 89.9 0 359 ''e''"

definition arctic_station :: station where
  "arctic_station = new_station ''F4FFF'' 80 (- 1) 0 ''f''"

text \<open>
  For \<open>polar_station\<close> and a projection of 500 km: the sine of the endpoint latitude,
  the longitude offset of the endpoint in radians, and the slope of the chord
  (latitude lost per degree of longitude).
\<close>

definition polar_v :: real where
  "polar_v = cos (pi / 1800) * cos (500 / 6371) + sin (pi / 1800) * sin (500 / 6371) * cos (pi / 180)"

definition polar_g :: real where
  "polar_g = atan2 (- sin (pi / 180) * sin (500 / 6371) * sin (pi / 1800))
                   (cos (500 / 6371) - cos (pi / 1800) * polar_v)"

definition polar_r :: real where
  "polar_r = (arcsin polar_v - (pi / 2 - pi / 1800)) / polar_g"

text \<open>
  The intermediate values of \<^verbatim>\<open>lat_lon_to_utm\<close>, named after its local variables, as
  functions of the latitude in radians (\<open>p\<close>) and of \<open>A\<close>.
\<close>

definition wgs_e2 :: real where
  "wgs_e2 = 1 / 298.257223563 * (2 - 1 / 298.257223563)"

definition wgs_ep2 :: real where
  "wgs_ep2 = wgs_e2 / (1 - wgs_e2)"

definition tm_N :: "real \<Rightarrow> real" where
  "tm_N p = 6378137 / sqrt (1 - wgs_e2 * (sin p)\<^sup>2)"

definition tm_T :: "real \<Rightarrow> real" where
  "tm_T p = (tan p)\<^sup>2"

definition tm_C :: "real \<Rightarrow> real" where
  "tm_C p = wgs_ep2 * (cos p)\<^sup>2"

definition tm_M :: "real \<Rightarrow> real" where
  "tm_M p = 6378137 * ((1 - wgs_e2 / 4 - 3 * wgs_e2\<^sup>2 / 64 - 5 * wgs_e2 ^ 3 / 256) * p
             - (3 * wgs_e2 / 8 + 3 * wgs_e2\<^sup>2 / 32 + 45 * wgs_e2 ^ 3 / 1024) * sin (2 * p)
             + (15 * wgs_e2\<^sup>2 / 256 + 45 * wgs_e2 ^ 3 / 1024) * sin (4 * p)
             - (35 * wgs_e2 ^ 3 / 3072) * sin (6 * p))"

definition tm_easting :: "real \<Rightarrow> real \<Rightarrow> real" where
  "tm_easting p A =
     0.9996 * tm_N p * (A + (1 - tm_T p + tm_C p) * A ^ 3 / 6
        + (5 - 18 * tm_T p + (tm_T p)\<^sup>2 + 72 * tm_C p - 58 * wgs_ep2) * A ^ 5 / 120) + 500000"

definition tm_northing :: "real \<Rightarrow> real \<Rightarrow> real" where
  "tm_northing p A =
     0.9996 * (tm_M p + tm_N p * tan p * (A\<^sup>2 / 2
        + (5 - tm_T p + 9 * tm_C p + 4 * (tm_C p)\<^sup>2) * A ^ 4 / 24
        + (61 - 58 * tm_T p + (tm_T p)\<^sup>2 + 600 * tm_C p - 330 * wgs_ep2) * A ^ 6 / 720))"

text \<open>
  Paris, \<open>(48.8566, 2.3522)\<close>: the latitude in radians and the opposite of \<open>A\<close>
  (Paris is west of the central meridian of zone 31, so \<open>A\<close> is negative).
\<close>

definition paris_p :: real where
  "paris_p = radians 48.8566"

definition paris_B :: real where
  "paris_B = 0.6478 * pi / 180 * cos paris_p"

section \<open>Rounding\<close>

lemma round_half_even_err: "\<bar>of_int (round_half_even x) - x\<bar> \<le> 1 / 2"
  unfolding round_half_even_def Let_def
  by (auto simp: abs_le_iff; linarith)

lemma py_round_err: "\<bar>py_round x n - x\<bar> \<le> 1 / (2 * 10 ^ n)"
proof -
  have p: "(0::real) < 10 ^ n" by simp
  define r where "r = real_of_int (round_half_even (x * 10 ^ n))"
  have e: "\<bar>r - x * 10 ^ n\<bar> \<le> 1 / 2"
    unfolding r_def by (rule round_half_even_err)
  have "py_round x n - x = (r - x * 10 ^ n) / 10 ^ n"
    using p by (simp add: py_round_def r_def diff_divide_distrib)
  then have "\<bar>py_round x n - x\<bar> = \<bar>r - x * 10 ^ n\<bar> / 10 ^ n"
    using p by simp
  also have "\<dots> \<le> (1 / 2) / 10 ^ n"
    using e p by (intro divide_right_mono) simp_all
  finally show ?thesis by simp
qed

lemma dms_to_dd_value:
  "dms_to_dd deg minutes seconds direction
     = Inr (py_round (dms_sign direction * (of_int deg + of_int minutes / 60 + seconds / 3600)) 6)"
  by (simp add: dms_to_dd_def dms_sign_def Let_def)

lemma dd_to_dms_parts:
  assumes h: "dd_to_dms dd ct = (deg, minutes, seconds, direction)"
  shows "\<bar>(of_int deg + of_int minutes / 60 + seconds / 3600) - \<bar>dd\<bar>\<bar> \<le> 1 / 720000"
    and "dms_sign direction = (if 0 \<le> dd then 1 else - 1)"
proof -
  from h [unfolded dd_to_dms_def Let_def prod.inject]
  have d: "py_int \<bar>dd\<bar> = deg"
    and m: "py_int ((\<bar>dd\<bar> - of_int (py_int \<bar>dd\<bar>)) * 60) = minutes"
    and s: "py_round ((\<bar>dd\<bar> - of_int (py_int \<bar>dd\<bar>)
              - of_int (py_int ((\<bar>dd\<bar> - of_int (py_int \<bar>dd\<bar>)) * 60)) / 60) * 3600) 2 = seconds"
    and dir: "(if ct = ''lat'' then (if 0 \<le> dd then ''N'' else ''S'')
               else (if 0 \<le> dd then ''E'' else ''W'')) = direction"
    by blast+
  have "\<bar>py_round ((\<bar>dd\<bar> - of_int deg - of_int minutes / 60) * 3600) 2
          - (\<bar>dd\<bar> - of_int deg - of_int minutes / 60) * 3600\<bar> \<le> 1 / (2 * 10 ^ 2)"
    by (rule py_round_err)
  moreover have "py_round ((\<bar>dd\<bar> - of_int deg - of_int minutes / 60) * 3600) 2 = seconds"
    using s [unfolded d m [unfolded d]] .
  ultimately have e: "\<bar>seconds - (\<bar>dd\<bar> - of_int deg - of_int minutes / 60) * 3600\<bar> \<le> 1 / 200"
    by simp
  define A where "A = (of_int deg + of_int minutes / 60 + seconds / 3600) - \<bar>dd\<bar>"
  define B where "B = seconds - (\<bar>dd\<bar> - of_int deg - of_int minutes / 60) * 3600"
  have "A * 3600 = B" by (simp add: A_def B_def field_simps)
  moreover have "\<bar>B\<bar> \<le> 1 / 200" using e by (simp add: B_def)
  ultimately have "\<bar>A\<bar> \<le> 1 / 720000" by linarith
  then show "\<bar>(of_int deg + of_int minutes / 60 + seconds / 3600) - \<bar>dd\<bar>\<bar> \<le> 1 / 720000"
    by (simp add: A_def)
  show "dms_sign direction = (if 0 \<le> dd then 1 else - 1)"
    unfolding dir [symmetric] dms_sign_def by simp
qed

lemma roundtrip_general:
  "\<exists>v. (case dd_to_dms dd ct of (deg, minutes, seconds, direction) \<Rightarrow>
           dms_to_dd deg minutes seconds direction) = Inr v \<and> \<bar>v - dd\<bar> \<le> 2 / 10 ^ 6"
proof -
  obtain deg minutes seconds direction
    where h: "dd_to_dms dd ct = (deg, minutes, seconds, direction)"
    by (metis prod_cases4)
  define x where "x = of_int deg + of_int minutes / 60 + seconds / 3600"
  have a: "\<bar>x - \<bar>dd\<bar>\<bar> \<le> 1 / 720000"
    and b: "dms_sign direction = (if 0 \<le> dd then 1 else - 1)"
    unfolding x_def using dd_to_dms_parts [OF h] by blast+
  have c: "\<bar>dms_sign direction * x - dd\<bar> \<le> 1 / 720000"
    using a unfolding b by (cases "0 \<le> dd") (simp_all add: abs_if split: if_splits)
  have "\<bar>py_round (dms_sign direction * x) 6 - dms_sign direction * x\<bar> \<le> 1 / (2 * 10 ^ 6)"
    by (rule py_round_err)
  then have r: "\<bar>py_round (dms_sign direction * x) 6 - dms_sign direction * x\<bar> \<le> 1 / 2000000"
    by simp
  have "\<bar>py_round (dms_sign direction * x) 6 - dd\<bar> \<le> 2 / 1000000"
    using c r by linarith
  then have "\<bar>py_round (dms_sign direction * x) 6 - dd\<bar> \<le> 2 / 10 ^ 6"
    by simp
  then show ?thesis
    by (simp add: h dms_to_dd_value x_def)
qed

section \<open>The great-circle projection in exact arithmetic\<close>

lemma radians_fmod:
  "sin (radians (py_fmod b 360)) = sin (radians b) \<and> cos (radians (py_fmod b 360)) = cos (radians b)"
proof -
  have "radians (py_fmod b 360) = radians b + 2 * pi * of_int (- \<lfloor>b / 360\<rfloor>)"
    by (simp add: radians_def py_fmod_def field_simps)
  then show ?thesis using sin_cos_eq_iff by blast
qed

lemma asin_arg_bounds:
  fixes a t b :: real
  shows "- 1 \<le> sin a * cos t + cos a * sin t * cos b \<and> sin a * cos t + cos a * sin t * cos b \<le> 1"
proof -
  define c where "c = cos b"
  define u where "u = sin (a + t)"
  define w where "w = sin (a - t)"
  have c: "- 1 \<le> c" "c \<le> 1" by (simp_all add: c_def)
  have u: "- 1 \<le> u" "u \<le> 1" by (simp_all add: u_def)
  have w: "- 1 \<le> w" "w \<le> 1" by (simp_all add: w_def)
  have e: "sin a * cos t + cos a * sin t * c = (1 + c) / 2 * u + (1 - c) / 2 * w"
    by (simp add: u_def w_def sin_add sin_diff field_simps)
  have p: "0 \<le> (1 + c) / 2" "0 \<le> (1 - c) / 2" using c by simp_all
  have "(1 + c) / 2 * u \<le> (1 + c) / 2 * 1" "(1 - c) / 2 * w \<le> (1 - c) / 2 * 1"
    using p u w by (intro mult_left_mono; simp)+
  moreover have "(1 + c) / 2 * (- 1) \<le> (1 + c) / 2 * u" "(1 - c) / 2 * (- 1) \<le> (1 - c) / 2 * w"
    using p u w by (intro mult_left_mono; simp)+
  ultimately show ?thesis unfolding c_def [symmetric] e by (simp add: field_simps)
qed

lemma calc_endpoint_value:
  "calc_endpoint_haversine la lo az d =
     Inr (degrees (arcsin (sin (radians la) * cos (d / 6371)
                           + cos (radians la) * sin (d / 6371) * cos (radians az))),
          degrees (radians lo + atan2 (sin (radians az) * sin (d / 6371) * cos (radians la))
             (cos (d / 6371) - sin (radians la) *
                sin (arcsin (sin (radians la) * cos (d / 6371)
                           + cos (radians la) * sin (d / 6371) * cos (radians az))))))"
  using asin_arg_bounds [of "radians la" "d / 6371" "radians az"]
  by (simp add: calc_endpoint_haversine_def py_asin_def Let_def)

lemma exact_projection_mod_360:
  "calc_endpoint_haversine la lo b d = calc_endpoint_haversine la lo (py_fmod b 360) d"
  by (simp add: calc_endpoint_value radians_fmod)

section \<open>The UTM and MGRS conversions never fail\<close>

lemma band_index_range:
  assumes "- 80 \<le> la" "la \<le> 84"
  shows "0 \<le> band_index la \<and> band_index la \<le> 20"
proof -
  have nn: "0 \<le> (la + 80) / 8" using assms by simp
  have "(la + 80) / 8 < 21" using assms by simp
  then have "\<lfloor>(la + 80) / 8\<rfloor> < 21" by linarith
  moreover have "0 \<le> \<lfloor>(la + 80) / 8\<rfloor>" using nn by simp
  ultimately show ?thesis using nn by (simp add: band_index_def py_int_def)
qed

lemma utm_letter_total: "\<exists>c. utm_letter la = Inr c"
proof (cases "- 80 \<le> la \<and> la \<le> 84")
  case True
  then have "0 \<le> band_index la \<and> band_index la \<le> 20" by (simp add: band_index_range)
  then show ?thesis using True by (simp add: utm_letter_def py_index_def)
next
  case False
  then show ?thesis by (auto simp: utm_letter_def)
qed

lemma lat_lon_to_utm_total: "\<exists>z c e n. lat_lon_to_utm la lo = Inr (z, c, e, n)"
proof -
  obtain c where "utm_letter la = Inr c" using utm_letter_total by blast
  then show ?thesis by (simp add: lat_lon_to_utm_def Let_def)
qed

lemma mgrs_col_idx_range: "0 \<le> mgrs_col_idx e \<and> mgrs_col_idx e \<le> 7"
  by (simp add: mgrs_col_idx_def Let_def)

lemma col_row_total:
  assumes "0 \<le> k" "k \<le> 5" "0 \<le> i" "i \<le> 7"
  shows "\<exists>r c. py_index [''ABCDEFGH'', ''JKLMNPQR'', ''STUVWXYZ'',
                          ''ABCDEFGH'', ''JKLMNPQR'', ''STUVWXYZ''] k = Inr r
               \<and> py_index r i = Inr c"
proof -
  from assms have "k = 0 \<or> k = 1 \<or> k = 2 \<or> k = 3 \<or> k = 4 \<or> k = 5" by arith
  then show ?thesis using assms by (auto simp: py_index_def)
qed

lemma lat_lon_to_mgrs_total: "\<exists>m. lat_lon_to_mgrs la lo = Inr m"
proof -
  obtain z c e n where u: "lat_lon_to_utm la lo = Inr (z, c, e, n)"
    using lat_lon_to_utm_total by blast
  define k where "k = (if z mod 6 = 0 then 6 else z mod 6) - 1"
  have "0 \<le> z mod 6" "z mod 6 < 6" by simp_all
  then have k: "0 \<le> k" "k \<le> 5" by (auto simp: k_def)
  obtain r cl where rc: "py_index [''ABCDEFGH'', ''JKLMNPQR'', ''STUVWXYZ'',
                          ''ABCDEFGH'', ''JKLMNPQR'', ''STUVWXYZ''] k = Inr r"
      "py_index r (mgrs_col_idx e) = Inr cl"
    using col_row_total [OF k] mgrs_col_idx_range [of e] by blast
  have "0 \<le> py_int (n / 100000) mod 20 mod 20" "py_int (n / 100000) mod 20 mod 20 < 20"
    by simp_all
  then obtain rl where rl: "py_index ''ABCDEFGHJKLMNPQRSTUV'' (py_int (n / 100000) mod 20 mod 20) = Inr rl"
    by (simp add: py_index_def)
  show ?thesis
    using rc rl unfolding lat_lon_to_mgrs_def u k_def by (simp add: Let_def)
qed

section \<open>Two bearings that cross\<close>

lemma degrees_radians [simp]: "degrees (radians x) = x"
  by (simp add: degrees_def radians_def)

lemma degrees_add: "degrees (x + y) = degrees x + degrees y"
  by (simp add: degrees_def add_divide_distrib distrib_right)

lemma endpoint_north:
  assumes "- (pi / 2) < radians la" "radians la + d / 6371 < pi / 2" "0 \<le> d"
  shows "calc_endpoint_haversine la lo 0 d = Inr (la + degrees (d / 6371), lo)"
proof -
  define p where "p = radians la"
  define t where "t = d / 6371"
  have t0: "0 \<le> t" using assms by (simp add: t_def)
  have r: "- (pi / 2) < p" "p + t < pi / 2" "p < pi / 2" "- (pi / 2) < p + t"
    using assms t0 by (simp_all add: p_def t_def)
  have s: "sin p * cos t + cos p * sin t = sin (p + t)" by (simp add: sin_add)
  have a: "arcsin (sin (p + t)) = p + t" using r by (intro arcsin_sin) simp_all
  have "cos t - sin p * sin (p + t) = cos p * cos (p + t)"
  proof -
    have "cos t = cos ((p + t) - p)" by simp
    also have "\<dots> = cos (p + t) * cos p + sin (p + t) * sin p" by (rule cos_diff)
    finally show ?thesis by (simp add: algebra_simps)
  qed
  moreover have "0 < cos p * cos (p + t)"
    using r by (intro mult_pos_pos cos_gt_zero_pi) simp_all
  ultimately have x: "0 < cos t - sin p * sin (p + t)" by simp
  have "calc_endpoint_haversine la lo 0 d = Inr (degrees (p + t), degrees (radians lo + 0))"
    unfolding calc_endpoint_value
    using x by (simp add: radians_def [of 0] s a atan2_def p_def [symmetric] t_def [symmetric])
  then show ?thesis by (simp add: degrees_add p_def t_def)
qed



lemma two_stations_intersections:
  "calculate_all_intersections [s1, s2] d =
     (case pair_intersection s1 s2 d of
        Inl err \<Rightarrow> Inl err | Inr None \<Rightarrow> Inr [] | Inr (Some p) \<Rightarrow> Inr [p])"
  by (simp add: calculate_all_intersections_def split: sum.splits option.splits)





section \<open>The enclosing circle\<close>

lemma dist_to_first:
  "distance_km (75 / 2) 5 (105 / 2) 0 = sqrt (5852475 / 2)"
proof -
  have "radians ((75 / 2 + 105 / 2) / 2) = pi / 4" by (simp add: radians_def)
  then have c: "cos (radians ((75 / 2 + 105 / 2) / 2)) = sqrt 2 / 2" by (simp only: cos_45)
  have "distance_km (75 / 2) 5 (105 / 2) 0 = sqrt ((15 * 111)\<^sup>2 + (- 5 * 111 * (sqrt 2 / 2))\<^sup>2)"
    unfolding distance_km_def Let_def c by simp
  also have "(15 * 111)\<^sup>2 + (- 5 * 111 * (sqrt 2 / 2))\<^sup>2 = (5852475 / 2 :: real)"
    by (simp add: power2_eq_square)
  finally show ?thesis .
qed

lemma dist_to_second:
  "distance_km (75 / 2) 5 (45 / 2) 10 = sqrt (12012975 / 4)"
proof -
  have "radians ((75 / 2 + 45 / 2) / 2) = pi / 6" by (simp add: radians_def)
  then have c: "cos (radians ((75 / 2 + 45 / 2) / 2)) = sqrt 3 / 2" by (simp only: cos_30)
  have "distance_km (75 / 2) 5 (45 / 2) 10 = sqrt ((- 15 * 111)\<^sup>2 + (5 * 111 * (sqrt 3 / 2))\<^sup>2)"
    unfolding distance_km_def Let_def c by simp
  also have "(- 15 * 111)\<^sup>2 + (5 * 111 * (sqrt 3 / 2))\<^sup>2 = (12012975 / 4 :: real)"
    by (simp add: power2_eq_square)
  finally show ?thesis .
qed

lemma two_point_circle:
  "smallest_enclosing_circle [(105 / 2, 0), (45 / 2, 10)] = (75 / 2, 5, max (sqrt (5852475 / 2)) 0.5)"
  using dist_to_first by (simp add: smallest_enclosing_circle_def Let_def)

lemma verify_sweep_ge: "r \<le> verify_sweep ps c1 c2 r"
proof (induction ps arbitrary: r)
  case Nil
  then show ?case by simp
next
  case (Cons p ps)
  have "r \<le> (if r < distance_km c1 c2 (fst p) (snd p) then distance_km c1 c2 (fst p) (snd p) else r)"
    by simp
  also have "\<dots> \<le> verify_sweep ps c1 c2
      (if r < distance_km c1 c2 (fst p) (snd p) then distance_km c1 c2 (fst p) (snd p) else r)"
    by (rule Cons.IH)
  finally show ?case by (simp add: Let_def)
qed

lemma verify_sweep_covers:
  "p \<in> set ps \<Longrightarrow> distance_km c1 c2 (fst p) (snd p) \<le> verify_sweep ps c1 c2 r"
proof (induction ps arbitrary: r)
  case Nil
  then show ?case by simp
next
  case (Cons q ps)
  show ?case
  proof (cases "p = q")
    case True
    have "distance_km c1 c2 (fst q) (snd q)
        \<le> (if r < distance_km c1 c2 (fst q) (snd q) then distance_km c1 c2 (fst q) (snd q) else r)"
      by simp
    also have "\<dots> \<le> verify_sweep ps c1 c2
        (if r < distance_km c1 c2 (fst q) (snd q) then distance_km c1 c2 (fst q) (snd q) else r)"
      by (rule verify_sweep_ge)
    finally show ?thesis using True by (simp add: Let_def)
  next
    case False
    then have "p \<in> set ps" using Cons.prems by simp
    then show ?thesis using Cons.IH by (simp add: Let_def)
  qed
qed

lemma enclosing_three_or_more:
  assumes "3 \<le> length points" "p \<in> set points"
    and "smallest_enclosing_circle points = (clat, clon, r)"
  shows "distance_km clat clon (fst p) (snd p) \<le> r"
proof -
  obtain q0 q1 q2 rest where ps: "points = q0 # q1 # q2 # rest"
    using assms(1) by (metis Suc_le_length_iff numeral_3_eq_3)
  obtain md p1 p2 where d: "diameter_outer points (0, q0, q1) = (md, p1, p2)"
    by (metis prod_cases3)
  obtain a b c where g: "grow_sweep points ((fst p1 + fst p2) / 2, (snd p1 + snd p2) / 2, md / 2) = (a, b, c)"
    by (metis prod_cases3)
  have "smallest_enclosing_circle points = (a, b, max (verify_sweep points a b c) 0.5)"
    unfolding smallest_enclosing_circle_def ps [symmetric]
    using ps d g by (simp add: Let_def split: list.splits)
  then have "clat = a" "clon = b" "r = max (verify_sweep points a b c) 0.5"
    using assms(3) by simp_all
  moreover have "distance_km a b (fst p) (snd p) \<le> verify_sweep points a b c"
    using assms(2) by (rule verify_sweep_covers)
  ultimately show ?thesis by simp
qed

lemma enclosing_single:
  "smallest_enclosing_circle [p] = (fst p, snd p, 0.5) \<and> distance_km (fst p) (snd p) (fst p) (snd p) = 0"
  by (simp add: smallest_enclosing_circle_def distance_km_def)

section \<open>Polynomial bounds for sine and cosine, and bounds for pi\<close>

lemma cos_taylor:
  fixes x :: real
  shows "\<bar>cos x - (\<Sum>m<n. cos_coeff m * x ^ m)\<bar> \<le> \<bar>x\<bar> ^ n / fact n"
proof -
  obtain t where t: "cos x = (\<Sum>m<n. cos_coeff m * x ^ m) + (cos (t + 1 / 2 * real n * pi) / fact n) * x ^ n"
    using Maclaurin_cos_expansion [of x n] by blast
  have "\<bar>cos x - (\<Sum>m<n. cos_coeff m * x ^ m)\<bar> = \<bar>cos (t + 1 / 2 * real n * pi)\<bar> * (\<bar>x\<bar> ^ n / fact n)"
    unfolding t by (simp add: abs_mult power_abs)
  also have "\<dots> \<le> 1 * (\<bar>x\<bar> ^ n / fact n)"
    by (intro mult_right_mono) simp_all
  finally show ?thesis by simp
qed

lemma sin_taylor:
  fixes x :: real
  shows "\<bar>sin x - (\<Sum>m<n. sin_coeff m * x ^ m)\<bar> \<le> \<bar>x\<bar> ^ n / fact n"
  using Maclaurin_sin_bound [of x n] by (simp add: field_simps)

lemma sin_poly9:
  fixes x :: real
  shows "\<bar>sin x - (x - x ^ 3 / 6 + x ^ 5 / 120 - x ^ 7 / 5040)\<bar> \<le> \<bar>x\<bar> ^ 9 / 362880"
proof -
  have "(\<Sum>m<9. sin_coeff m * x ^ m) = x - x ^ 3 / 6 + x ^ 5 / 120 - x ^ 7 / 5040"
    by (simp add: eval_nat_numeral sin_coeff_Suc cos_coeff_Suc field_simps)
  moreover have "fact 9 = (362880::real)" by (simp add: eval_nat_numeral)
  ultimately show ?thesis using sin_taylor [of x 9] by simp
qed

lemma cos_poly10:
  fixes x :: real
  shows "\<bar>cos x - (1 - x\<^sup>2 / 2 + x ^ 4 / 24 - x ^ 6 / 720 + x ^ 8 / 40320)\<bar> \<le> \<bar>x\<bar> ^ 10 / 3628800"
proof -
  have "(\<Sum>m<10. cos_coeff m * x ^ m) = 1 - x\<^sup>2 / 2 + x ^ 4 / 24 - x ^ 6 / 720 + x ^ 8 / 40320"
    by (simp add: eval_nat_numeral sin_coeff_Suc cos_coeff_Suc field_simps)
  moreover have "fact 10 = (3628800::real)" by (simp add: eval_nat_numeral)
  ultimately show ?thesis using cos_taylor [of x 10] by simp
qed

lemma sin_poly3:
  fixes x :: real
  shows "\<bar>sin x - x\<bar> \<le> \<bar>x\<bar> ^ 3 / 6"
proof -
  have "(\<Sum>m<3. sin_coeff m * x ^ m) = x" by (simp add: eval_nat_numeral sin_coeff_Suc cos_coeff_Suc field_simps)
  moreover have "fact 3 = (6::real)" by (simp add: eval_nat_numeral)
  ultimately show ?thesis using sin_taylor [of x 3] by simp
qed

lemma cos_poly2:
  fixes x :: real
  shows "\<bar>cos x - 1\<bar> \<le> x\<^sup>2 / 2"
proof -
  have "(\<Sum>m<2. cos_coeff m * x ^ m) = 1" by (simp add: eval_nat_numeral sin_coeff_Suc cos_coeff_Suc field_simps)
  then show ?thesis using cos_taylor [of x 2] by simp
qed

lemma cos_poly4:
  fixes x :: real
  shows "\<bar>cos x - (1 - x\<^sup>2 / 2)\<bar> \<le> x ^ 4 / 24"
proof -
  have "(\<Sum>m<4. cos_coeff m * x ^ m) = 1 - x\<^sup>2 / 2" by (simp add: eval_nat_numeral sin_coeff_Suc cos_coeff_Suc field_simps)
  moreover have "fact 4 = (24::real)" by (simp add: eval_nat_numeral)
  ultimately show ?thesis using cos_taylor [of x 4] by simp
qed

lemma sin_upper9:
  fixes x :: real
  assumes "0 \<le> x"
  shows "sin x \<le> x - x ^ 3 / 6 + x ^ 5 / 120 - x ^ 7 / 5040 + x ^ 9 / 362880"
proof -
  have "\<bar>x\<bar> ^ 9 = x ^ 9" using assms by simp
  then show ?thesis using sin_poly9 [of x] by linarith
qed

lemma sin_lower9:
  fixes x :: real
  assumes "0 \<le> x"
  shows "x - x ^ 3 / 6 + x ^ 5 / 120 - x ^ 7 / 5040 - x ^ 9 / 362880 \<le> sin x"
proof -
  have "\<bar>x\<bar> ^ 9 = x ^ 9" using assms by simp
  then show ?thesis using sin_poly9 [of x] by linarith
qed

lemma cos_upper10:
  fixes x :: real
  shows "cos x \<le> 1 - x\<^sup>2 / 2 + x ^ 4 / 24 - x ^ 6 / 720 + x ^ 8 / 40320 + x ^ 10 / 3628800"
proof -
  have "\<bar>x\<bar> ^ 10 = x ^ 10" by simp
  then show ?thesis using cos_poly10 [of x] by linarith
qed

lemma cos_lower10:
  fixes x :: real
  shows "1 - x\<^sup>2 / 2 + x ^ 4 / 24 - x ^ 6 / 720 + x ^ 8 / 40320 - x ^ 10 / 3628800 \<le> cos x"
proof -
  have "\<bar>x\<bar> ^ 10 = x ^ 10" by simp
  then show ?thesis using cos_poly10 [of x] by linarith
qed

lemma pi_lower: "314159 / 100000 < pi"
proof -
  define x :: real where "x = 314159 / 600000"
  have x: "0 \<le> x" "x \<le> 1" by (simp_all add: x_def)
  have "sin x \<le> x - x ^ 3 / 6 + x ^ 5 / 120 - x ^ 7 / 5040 + x ^ 9 / 362880"
    using x by (intro sin_upper9)
  also have "\<dots> < 1 / 2" by (simp add: x_def power_divide)
  finally have "sin x < sin (pi / 6)" by (simp add: sin_30)
  moreover have "x \<le> pi / 2" using x pi_ge_two by simp
  moreover have "- (pi / 2) \<le> x" using x by (meson pi_half_ge_zero order_trans neg_le_0_iff_le)
  ultimately have "x < pi / 6"
    by (subst (asm) sin_mono_less_eq) simp_all
  then show ?thesis by (simp add: x_def)
qed

lemma pi_upper: "pi < 31416 / 10000"
proof -
  define x :: real where "x = 5236 / 10000"
  have x: "0 \<le> x" "x \<le> 1" by (simp_all add: x_def)
  have "1 / 2 < x - x ^ 3 / 6 + x ^ 5 / 120 - x ^ 7 / 5040 - x ^ 9 / 362880"
    by (simp add: x_def power_divide)
  also have "\<dots> \<le> sin x" using x by (intro sin_lower9)
  finally have "sin (pi / 6) < sin x" by (simp add: sin_30)
  moreover have "x \<le> pi / 2" using x pi_ge_two by simp
  moreover have "- (pi / 2) \<le> x" using x by (meson pi_half_ge_zero order_trans neg_le_0_iff_le)
  ultimately have "pi / 6 < x"
    by (subst (asm) sin_mono_less_eq) simp_all
  then show ?thesis by (simp add: x_def)
qed

section \<open>A longitude west of the valid range\<close>

lemma utm_letter_equator: "utm_letter 0 = Inr (CHR ''N'')"
  by (simp add: utm_letter_def band_index_def py_int_def py_index_def)

lemma utm_equator:
  "lat_lon_to_utm 0 lo =
     (let e2 = sqrt (1 / 298.257223563 * (2 - 1 / 298.257223563)) * sqrt (1 / 298.257223563 * (2 - 1 / 298.257223563));
          ep2 = e2 / (1 - e2);
          A = radians lo - radians (of_int ((utm_zone 0 lo - 1) * 6 - 180 + 3))
      in Inr (utm_zone 0 lo, CHR ''N'',
              0.9996 * 6378137 * (A + (1 + ep2) * A ^ 3 / 6 + (5 + 72 * ep2 - 58 * ep2) * A ^ 5 / 120) + 500000,
              0))"
  by (simp add: lat_lon_to_utm_def utm_letter_equator Let_def radians_def [of 0])

lemma zone_west_of_range: "utm_zone 0 (- 185) = 1"
  by (simp add: utm_zone_def py_int_def)

lemma easting_west_of_range:
  "lat_lon_to_utm 0 (- 185) = Inr (z, c, e, n) \<Longrightarrow> z = 1 \<and> c = CHR ''N'' \<and> e < 0 \<and> n = 0"
proof -
  assume h: "lat_lon_to_utm 0 (- 185) = Inr (z, c, e, n)"
  define e2 :: real where "e2 = sqrt (1 / 298.257223563 * (2 - 1 / 298.257223563)) * sqrt (1 / 298.257223563 * (2 - 1 / 298.257223563))"
  define ep2 where "ep2 = e2 / (1 - e2)"
  define A where "A = radians (- 185) - radians (of_int ((1 - 1) * 6 - 180 + 3))"
  have e2v: "e2 = 1 / 298.257223563 * (2 - 1 / 298.257223563)"
    unfolding e2_def by (simp del: real_sqrt_mult_self add: real_sqrt_mult_self)
  have ep2: "0 \<le> ep2" unfolding ep2_def e2v by simp
  have Av: "A = - (8 * pi / 180)" by (simp add: A_def radians_def field_simps)
  have A0: "A < - (2 / 15)" using pi_lower unfolding Av by simp
  have A3: "A ^ 3 \<le> 0" using A0 by (simp add: power3_eq_cube mult_nonpos_nonneg zero_le_mult_iff mult_le_0_iff)
  have A5: "A ^ 5 \<le> 0"
  proof -
    have "A ^ 5 = A ^ 3 * A\<^sup>2" by (simp add: power_add [symmetric])
    then show ?thesis using A3 by (simp add: mult_nonpos_nonneg)
  qed
  have t3: "(1 + ep2) * A ^ 3 / 6 \<le> 0"
    using ep2 A3 by (simp add: mult_nonneg_nonpos divide_nonpos_pos)
  have "0 \<le> 5 + 72 * ep2 - 58 * ep2" using ep2 by simp
  then have t5: "(5 + 72 * ep2 - 58 * ep2) * A ^ 5 / 120 \<le> 0"
    using A5 by (simp add: mult_nonneg_nonpos divide_nonpos_pos)
  define P where "P = A + (1 + ep2) * A ^ 3 / 6 + (5 + 72 * ep2 - 58 * ep2) * A ^ 5 / 120"
  have "P < - (2 / 15)"
    unfolding P_def using A0 t3 t5 by linarith
  then have "0.9996 * 6378137 * P < 0.9996 * 6378137 * (- (2 / 15))"
    by (intro mult_strict_left_mono) simp_all
  moreover have "0.9996 * 6378137 * (- (2 / 15)) + 500000 < (0::real)" by simp
  ultimately have "0.9996 * 6378137 * P + 500000 < 0" by linarith
  then have neg: "0.9996 * 6378137 * (A + (1 + ep2) * A ^ 3 / 6 + (5 + 72 * ep2 - 58 * ep2) * A ^ 5 / 120) + 500000 < 0"
    unfolding P_def .
  from h show ?thesis
    unfolding utm_equator zone_west_of_range Let_def
      e2_def [symmetric] ep2_def [symmetric] A_def [symmetric]
    using neg by auto
qed

lemma col_idx_clamped_low: "e < 0 \<Longrightarrow> py_int (e / 100000) - 1 < 0 \<and> mgrs_col_idx e = 0"
proof -
  assume "e < 0"
  then have "e / 100000 < 0" by simp
  then have "\<lceil>e / 100000\<rceil> \<le> 0" by (simp add: ceiling_le_zero)
  then have "py_int (e / 100000) - 1 < 0" using \<open>e / 100000 < 0\<close> by (simp add: py_int_def)
  then show ?thesis by (simp add: mgrs_col_idx_def Let_def)
qed

lemma col_idx_low: "x < 100000 \<Longrightarrow> mgrs_col_idx x = 0"
proof -
  assume "x < 100000"
  then have "x / 100000 < 1" by simp
  then have "\<lfloor>x / 100000\<rfloor> \<le> 0" "\<lceil>x / 100000\<rceil> \<le> 1" by linarith+
  moreover have "x / 100000 < 0 \<Longrightarrow> \<lceil>x / 100000\<rceil> \<le> 0" by (simp add: ceiling_le_zero)
  ultimately have "py_int (x / 100000) - 1 < 0" by (auto simp: py_int_def)
  then show ?thesis by (simp add: mgrs_col_idx_def Let_def)
qed

lemma col_idx_high: "900000 \<le> x \<Longrightarrow> mgrs_col_idx x = 7"
proof -
  assume "900000 \<le> x"
  then have "9 \<le> x / 100000" by simp
  then have "9 \<le> \<lfloor>x / 100000\<rfloor>" "0 \<le> x / 100000" by linarith+
  then have "7 < py_int (x / 100000) - 1" by (simp add: py_int_def)
  then show ?thesis by (simp add: mgrs_col_idx_def Let_def)
qed

lemma utm_zone_kept:
  "lat_lon_to_utm la lo = Inr (z, c, e, n) \<Longrightarrow> z = utm_zone la lo \<and> utm_letter la = Inr c"
  by (auto simp: lat_lon_to_utm_def Let_def split: sum.splits)

lemma mgrs_west_of_range:
  "\<exists>e_100k. lat_lon_to_mgrs 0 (- 185) = Inr (1, CHR ''N'', CHR ''A'', CHR ''A'', e_100k, 0)"
proof -
  obtain z c e n where u: "lat_lon_to_utm 0 (- 185) = Inr (z, c, e, n)"
    using lat_lon_to_utm_total by blast
  then have v: "z = 1" "c = CHR ''N''" "e < 0" "n = 0"
    using easting_west_of_range by blast+
  have ci: "mgrs_col_idx e = 0" using v col_idx_clamped_low by blast
  show ?thesis
    unfolding lat_lon_to_mgrs_def u v(1,2,4)
    by (simp add: Let_def ci py_index_def py_int_def py_fmod_def)
qed

section \<open>The crossing point and the projection distance\<close>

lemma endpoint_east:
  assumes la: "- (pi / 2) < radians la" "radians la < pi / 2"
    and d: "0 < d / 6371" "d / 6371 < pi / 2"
  shows "calc_endpoint_haversine la lo 90 d =
           Inr (degrees (arcsin (sin (radians la) * cos (d / 6371))),
                lo + degrees (arctan (tan (d / 6371) / cos (radians la))))"
proof -
  define p where "p = radians la"
  define t where "t = d / 6371"
  have cp: "0 < cos p" using la by (intro cos_gt_zero_pi) (simp_all add: p_def)
  have ct: "0 < cos t" using d by (intro cos_gt_zero_pi) (simp_all add: t_def)
  have r90: "radians 90 = pi / 2" by (simp add: radians_def)
  have v: "- 1 \<le> sin p * cos t" "sin p * cos t \<le> 1"
    using asin_arg_bounds [of p t "pi / 2"] by simp_all
  have "cos t - sin p * (sin p * cos t) = cos t * (1 - (sin p)\<^sup>2)"
    by (simp add: algebra_simps power2_eq_square)
  also have "\<dots> = cos t * (cos p)\<^sup>2" by (simp add: cos_squared_eq)
  finally have x: "cos t - sin p * (sin p * cos t) = cos t * (cos p)\<^sup>2" .
  have xpos: "0 < cos t * (cos p)\<^sup>2" using cp ct by simp
  have "sin t * cos p / (cos t * (cos p)\<^sup>2) = tan t / cos p"
    using cp ct by (simp add: tan_def power2_eq_square)
  then have a: "atan2 (sin t * cos p) (cos t * (cos p)\<^sup>2) = arctan (tan t / cos p)"
    using xpos by (simp add: atan2_def)
  have "calc_endpoint_haversine la lo 90 d =
      Inr (degrees (arcsin (sin p * cos t)), degrees (radians lo + arctan (tan t / cos p)))"
    unfolding calc_endpoint_value r90 p_def [symmetric] t_def [symmetric]
    using v by (simp add: x a)
  then show ?thesis by (simp add: degrees_add p_def t_def)
qed

lemma sqrt2_bounds: "1 < sqrt 2" "sqrt 2 < 1.4143"
proof -
  show "1 < sqrt 2" by simp
  show "sqrt 2 < 1.4143" by (intro real_less_lsqrt) (simp_all add: power2_eq_square)
qed

lemma sin_quarter_minus: "sin (pi / 4 - e) = sqrt 2 / 2 * (cos e - sin e)"
  by (simp add: sin_diff sin_45 cos_45 algebra_simps)

lemma drop_basic:
  assumes t: "0 < t" "t < pi / 4"
  shows "0 < pi / 4 - arcsin (sqrt 2 / 2 * cos t)"
    and "pi / 4 - arcsin (sqrt 2 / 2 * cos t) < t"
    and "t \<le> arctan (sqrt 2 * tan t)"
proof -
  have t2: "t < pi / 2" "- (pi / 2) < t" using t by simp_all
  have ct: "0 < cos t" using t2 by (intro cos_gt_zero_pi) simp_all
  have st: "0 < sin t" using t t2 by (intro sin_gt_zero2) simp_all
  have c1: "cos t < 1"
  proof -
    have "cos t < cos 0" using t t2 by (intro cos_monotone_0_pi) simp_all
    then show ?thesis by simp
  qed
  have s2: "0 < sqrt 2 / 2" by simp
  have v1: "sqrt 2 / 2 * cos t < sqrt 2 / 2 * 1" using c1 s2 by (intro mult_strict_left_mono)
  have v0: "0 < sqrt 2 / 2 * cos t" using ct by simp
  have s1: "sqrt 2 / 2 \<le> 1" using sqrt2_bounds by simp
  have vb: "- 1 \<le> sqrt 2 / 2 * cos t" "sqrt 2 / 2 * cos t \<le> 1" using v0 v1 s1 by linarith+
  have "arcsin (sqrt 2 / 2 * cos t) < arcsin (sin (pi / 4))"
    unfolding sin_45 using vb v1 s1 by (intro arcsin_less_arcsin) simp_all
  also have "\<dots> = pi / 4" by (intro arcsin_sin) simp_all
  finally show "0 < pi / 4 - arcsin (sqrt 2 / 2 * cos t)" by simp
  have "sin (pi / 4 - t) = sqrt 2 / 2 * (cos t - sin t)" by (rule sin_quarter_minus)
  also have "\<dots> < sqrt 2 / 2 * cos t" using st s2 by (intro mult_strict_left_mono) simp_all
  finally have lt: "sin (pi / 4 - t) < sqrt 2 / 2 * cos t" .
  have "pi / 4 - t = arcsin (sin (pi / 4 - t))" using t by (intro arcsin_sin [symmetric]) simp_all
  also have "\<dots> < arcsin (sqrt 2 / 2 * cos t)"
    using lt vb by (intro arcsin_less_arcsin) simp_all
  finally show "pi / 4 - arcsin (sqrt 2 / 2 * cos t) < t" by simp
  have tt: "0 < tan t" using t t2 by (intro tan_gt_zero) simp_all
  have "tan t \<le> sqrt 2 * tan t" using tt sqrt2_bounds by simp
  then have "arctan (tan t) \<le> arctan (sqrt 2 * tan t)" by (simp add: arctan_le_iff)
  then show "t \<le> arctan (sqrt 2 * tan t)" using t2 by (simp add: arctan_tan)
qed

lemma sin_lower3:
  fixes x :: real
  assumes "0 \<le> x"
  shows "x - x ^ 3 / 6 \<le> sin x"
proof -
  have "\<bar>x\<bar> ^ 3 = x ^ 3" using assms by simp
  then show ?thesis using sin_poly3 [of x] by linarith
qed

lemma cos_lower2:
  fixes x :: real
  shows "1 - x\<^sup>2 / 2 \<le> cos x"
  using cos_poly2 [of x] by linarith

lemma cos_upper4:
  fixes x :: real
  shows "cos x \<le> 1 - x\<^sup>2 / 2 + x ^ 4 / 24"
  using cos_poly4 [of x] by linarith

lemma drop_less:
  assumes t: "0 < t" "t < pi / 4" and e: "0 < e" "e < pi / 4"
    and c: "cos e - sin e < cos t"
  shows "pi / 4 - arcsin (sqrt 2 / 2 * cos t) < e"
proof -
  have s2: "0 < sqrt 2 / 2" by simp
  have ct: "cos t \<le> 1" by simp
  have "sqrt 2 / 2 * cos t \<le> sqrt 2 / 2 * 1" using s2 by (intro mult_left_mono) simp_all
  moreover have "sqrt 2 / 2 \<le> 1" using sqrt2_bounds by simp
  ultimately have ub: "sqrt 2 / 2 * cos t \<le> 1" by linarith
  have "sin (pi / 4 - e) = sqrt 2 / 2 * (cos e - sin e)" by (rule sin_quarter_minus)
  also have "\<dots> < sqrt 2 / 2 * cos t" using c s2 by (intro mult_strict_left_mono)
  finally have lt: "sin (pi / 4 - e) < sqrt 2 / 2 * cos t" .
  have "pi / 4 - e = arcsin (sin (pi / 4 - e))" using e by (intro arcsin_sin [symmetric]) simp_all
  also have "\<dots> < arcsin (sqrt 2 / 2 * cos t)"
    using lt ub by (intro arcsin_less_arcsin) simp_all
  finally show ?thesis by simp
qed

lemma drop_greater:
  assumes t: "0 < t" "t < pi / 4" and e: "0 < e" "e < pi / 4"
    and c: "cos t < cos e - sin e"
  shows "e < pi / 4 - arcsin (sqrt 2 / 2 * cos t)"
proof -
  have s2: "0 < sqrt 2 / 2" by simp
  have "0 < cos t" using t by (intro cos_gt_zero_pi) simp_all
  then have "0 < sqrt 2 / 2 * cos t" using s2 by (intro mult_pos_pos)
  then have lb: "- 1 \<le> sqrt 2 / 2 * cos t" by linarith
  have "sqrt 2 / 2 * cos t < sqrt 2 / 2 * (cos e - sin e)" using c s2 by (intro mult_strict_left_mono)
  also have "\<dots> = sin (pi / 4 - e)" by (rule sin_quarter_minus [symmetric])
  finally have lt: "sqrt 2 / 2 * cos t < sin (pi / 4 - e)" .
  have "arcsin (sqrt 2 / 2 * cos t) < arcsin (sin (pi / 4 - e))"
    using lt lb by (intro arcsin_less_arcsin) simp_all
  also have "\<dots> = pi / 4 - e" using e by (intro arcsin_sin) simp_all
  finally show ?thesis by simp
qed

lemma pi_quarter_bounds: "78 / 100 < pi / 4" "pi / 2 < 158 / 100"
  using pi_lower pi_upper by simp_all

lemma drop_ratio_100: "0 < drop_ratio 100" "drop_ratio 100 < 1 / 100"
proof -
  define t :: real where "t = 100 / 6371"
  define e :: real where "e = 1 / 6371"
  have t: "0 < t" "t < pi / 4" using pi_quarter_bounds by (simp_all add: t_def)
  have e: "0 < e" "e < pi / 4" using pi_quarter_bounds by (simp_all add: e_def)
  note b = drop_basic [OF t]
  have g: "0 < arctan (sqrt 2 * tan t)" using b(3) t by linarith
  show "0 < drop_ratio 100"
    unfolding drop_ratio_def t_def [symmetric] using b(1) g by simp
  have "cos e - sin e \<le> 1 - (e - e ^ 3 / 6)"
    using sin_lower3 [of e] cos_le_one [of e] e by linarith
  also have "\<dots> < 1 - t\<^sup>2 / 2" by (simp add: e_def t_def power_divide)
  also have "\<dots> \<le> cos t" by (rule cos_lower2)
  finally have "pi / 4 - arcsin (sqrt 2 / 2 * cos t) < e" using t e by (intro drop_less)
  also have "e = t / 100" by (simp add: e_def t_def)
  also have "t / 100 \<le> arctan (sqrt 2 * tan t) / 100" using b(3) by simp
  finally have "pi / 4 - arcsin (sqrt 2 / 2 * cos t) < arctan (sqrt 2 * tan t) * (1 / 100)" by simp
  then show "drop_ratio 100 < 1 / 100"
    unfolding drop_ratio_def t_def [symmetric] using g by (simp add: pos_divide_less_eq)
qed

lemma drop_ratio_below_one:
  assumes "0 < d" "d / 6371 < pi / 4"
  shows "0 < drop_ratio d" "drop_ratio d < 1"
proof -
  define t :: real where "t = d / 6371"
  have t: "0 < t" "t < pi / 4" using assms by (simp_all add: t_def)
  note b = drop_basic [OF t]
  have g: "0 < arctan (sqrt 2 * tan t)" using b(3) t by linarith
  show "0 < drop_ratio d"
    unfolding drop_ratio_def t_def [symmetric] using b(1) g by simp
  have "pi / 4 - arcsin (sqrt 2 / 2 * cos t) < arctan (sqrt 2 * tan t)" using b(2,3) by linarith
  then show "drop_ratio d < 1"
    unfolding drop_ratio_def t_def [symmetric] using g by simp
qed

lemma drop_ratio_500: "1 / 100 < drop_ratio 500"
proof -
  define t :: real where "t = 500 / 6371"
  define e :: real where "e = 12 / 10000"
  define g :: real where "g = 12 / 100"
  have t: "0 < t" "t < pi / 4" using pi_quarter_bounds by (simp_all add: t_def)
  have e: "0 < e" "e < pi / 4" using pi_quarter_bounds by (simp_all add: e_def)
  have g: "0 < g" "g < pi / 2" using pi_quarter_bounds by (simp_all add: g_def)
  note b = drop_basic [OF t]
  have gam: "0 < arctan (sqrt 2 * tan t)" using b(3) t by linarith
  have ct: "0 < 1 - t\<^sup>2 / 2" by (simp add: t_def power_divide)
  have ctl: "1 - t\<^sup>2 / 2 \<le> cos t" by (rule cos_lower2)
  have st: "sin t \<le> t" using t by (intro sin_x_le_x) simp
  have "tan t = sin t / cos t" by (simp add: tan_def)
  also have "\<dots> \<le> t / cos t" using st ct ctl by (intro divide_right_mono) simp_all
  also have "\<dots> \<le> t / (1 - t\<^sup>2 / 2)" using ct ctl t by (intro divide_left_mono) simp_all
  finally have tt: "tan t \<le> t / (1 - t\<^sup>2 / 2)" .
  have tpos: "0 < tan t" using t by (intro tan_gt_zero) simp_all
  have "sqrt 2 * tan t \<le> 1.4143 * tan t" using sqrt2_bounds tpos by (intro mult_right_mono) simp_all
  also have "\<dots> \<le> 1.4143 * (t / (1 - t\<^sup>2 / 2))" using tt by (intro mult_left_mono) simp_all
  also have "\<dots> < g - g ^ 3 / 6" by (simp add: t_def g_def power_divide)
  also have "\<dots> \<le> sin g" using g by (intro sin_lower3) simp
  also have "\<dots> \<le> tan g"
  proof -
    have c: "0 < cos g" using g by (intro cos_gt_zero_pi) simp_all
    have s: "0 \<le> sin g" using g by (intro sin_ge_zero) simp_all
    have "sin g * cos g \<le> sin g * 1" using s by (intro mult_left_mono) simp_all
    then show ?thesis using c by (simp add: tan_def pos_le_divide_eq)
  qed
  finally have "arctan (sqrt 2 * tan t) < arctan (tan g)" by (simp add: arctan_less_iff)
  then have gub: "arctan (sqrt 2 * tan t) < g" using g by (simp add: arctan_tan)
  have "cos t \<le> 1 - t\<^sup>2 / 2 + t ^ 4 / 24" by (rule cos_upper4)
  also have "\<dots> < 1 - e\<^sup>2 / 2 - e" by (simp add: e_def t_def power_divide)
  also have "\<dots> \<le> cos e - sin e"
    using cos_lower2 [of e] sin_x_le_x [of e] e by linarith
  finally have "e < pi / 4 - arcsin (sqrt 2 / 2 * cos t)" using t e by (intro drop_greater)
  moreover have "arctan (sqrt 2 * tan t) * (1 / 100) < e" using gub by (simp add: e_def g_def)
  ultimately have "arctan (sqrt 2 * tan t) * (1 / 100) < pi / 4 - arcsin (sqrt 2 / 2 * cos t)"
    by linarith
  then show ?thesis
    unfolding drop_ratio_def t_def [symmetric] using gam by (simp add: pos_less_divide_eq)
qed

lemma degrees_mono: "x \<le> y \<Longrightarrow> degrees x \<le> degrees y"
  by (simp add: degrees_def divide_right_mono)

lemma degrees_pos: "0 < x \<Longrightarrow> 0 < degrees x"
  by (simp add: degrees_def)

lemma atan2_second_quadrant:
  assumes "0 < y" "x < 0"
  shows "pi / 2 < atan2 y x" "atan2 y x < pi"
proof -
  have n: "y / x < 0" using assms by (simp add: divide_pos_neg)
  have "arctan (y / x) < 0" using n by simp
  moreover have "- (pi / 2) < arctan (y / x)" by (rule arctan_lbound)
  moreover have "atan2 y x = arctan (y / x) + pi" using assms by (simp add: atan2_def)
  ultimately show "pi / 2 < atan2 y x" "atan2 y x < pi" by linarith+
qed

lemma mid_pair:
  assumes d: "100 \<le> d" "d / 6371 < pi / 4"
  shows "pair_intersection station_mid_east station_mid_north d
           = Inr (Some (45 - drop_ratio d / 2, 1 / 2))"
    and "within_chords station_mid_east station_mid_north d (45 - drop_ratio d / 2, 1 / 2)"
proof -
  define t where "t = d / 6371"
  define lam where "lam = arcsin (sqrt 2 / 2 * cos t)"
  define gam where "gam = arctan (sqrt 2 * tan t)"
  define r where "r = drop_ratio d"
  have t: "0 < t" "t < pi / 4" using d by (simp_all add: t_def)
  note b = drop_basic [OF t, folded lam_def gam_def]
  have r: "0 < r" "r < 1" unfolding r_def using drop_ratio_below_one [of d] d by simp_all
  have rv: "r = (pi / 4 - lam) / gam" by (simp add: r_def drop_ratio_def lam_def gam_def t_def)
  have gpos: "0 < gam" using b(3) t by linarith
  have r45: "radians 45 = pi / 4" by (simp add: radians_def)
  have e1: "calc_endpoint_haversine 45 0 90 d = Inr (degrees lam, degrees gam)"
  proof -
    have "tan t / (sqrt 2 / 2) = sqrt 2 * tan t"
      by (simp add: field_simps)
    then show ?thesis
      using endpoint_east [of 45 d 0] t unfolding r45 t_def [symmetric]
      by (simp add: sin_45 cos_45 lam_def gam_def)
  qed
  have "radians (89 / 2) + t < pi / 2" using t by (simp add: radians_def)
  moreover have "- (pi / 2) < radians (89 / 2)"
  proof -
    have "0 < radians (89 / 2)" by (simp add: radians_def)
    then show ?thesis using pi_gt_zero by linarith
  qed
  ultimately have e2: "calc_endpoint_haversine (89 / 2) (1 / 2) 0 d = Inr (89 / 2 + degrees t, 1 / 2)"
    using endpoint_north [of "89 / 2" d "1 / 2"] d by (simp add: t_def)
  have Dlow: "7 / 10 \<le> degrees t"
  proof -
    have "100 / 6371 \<le> t" using d by (simp add: t_def)
    then have "degrees (100 / 6371) \<le> degrees t" by (rule degrees_mono)
    moreover have "7 / 10 * pi \<le> 100 / 6371 * 180" using pi_less_4 by simp
    then have "7 / 10 \<le> degrees (100 / 6371)" by (simp add: degrees_def field_simps)
    ultimately show ?thesis by linarith
  qed
  have Glow: "degrees t \<le> degrees gam" using b(3) by (rule degrees_mono)
  have Gpos: "0 < degrees gam" using gpos by (rule degrees_pos)
  have den: "1 / 10 ^ 10 \<le> degrees gam * degrees t"
  proof -
    have "(7 / 10) * (7 / 10) \<le> degrees gam * degrees t"
      using Dlow Glow by (intro mult_mono) simp_all
    then show ?thesis by simp
  qed
  have ratio: "(degrees lam - 45) / degrees gam = - r"
    using gpos by (simp add: rv degrees_def field_simps)
  have li: "line_intersection (0, 45) (degrees gam, degrees lam) (1 / 2, 89 / 2) (1 / 2, 89 / 2 + degrees t)
      = Some (1 / 2, 45 - r / 2)"
  proof -
    have dn: "\<not> \<bar>degrees gam * degrees t\<bar> < 1 / 10 ^ 10" using den by simp
    have tp: "degrees t / (degrees gam * degrees t) = 1 / degrees gam" using Dlow by simp
    have Dnz: "degrees t \<noteq> 0" using Dlow by simp
    have "(degrees lam - 45) / (2 * degrees gam) = (degrees lam - 45) / degrees gam / 2"
      by simp
    then have py: "(degrees lam - 45) / (2 * degrees gam) = - (r / 2)"
      unfolding ratio by simp
    show ?thesis
      unfolding line_intersection_def Let_def fst_conv snd_conv
      using dn Gpos py Dnz by (simp add: tp)
  qed
  have ff: "forward_filter station_mid_east station_mid_north (1 / 2, 45 - r / 2) = Some (45 - r / 2, 1 / 2)"
  proof -
    have q: "pi / 2 < atan2 (1 / 2) (- (r / 2))" "atan2 (1 / 2) (- (r / 2)) < pi"
      using atan2_second_quadrant [of "1 / 2" "- (r / 2)"] r by simp_all
    have a1: "angle_diff (atan2 (1 / 2) (- (r / 2))) (pi / 2) < pi / 2"
      unfolding angle_diff_def Let_def using q by (simp add: abs_if)
    have "atan2 0 (1 / 2 - r / 2) = 0" using r by (simp add: atan2_def)
    then have a2: "angle_diff (atan2 0 (1 / 2 - r / 2)) 0 < pi / 2"
      unfolding angle_diff_def Let_def by simp
    have s: "45 - r / 2 - 45 = - (r / 2)" "45 - r / 2 - 89 / 2 = 1 / 2 - r / 2" by simp_all
    show ?thesis
      unfolding forward_filter_def Let_def
      using a1 a2 r
      by (simp add: station_mid_east_def station_mid_north_def new_station_def r45 s
          radians_def [of 0] radians_def [of 90])
  qed
  show "pair_intersection station_mid_east station_mid_north d
           = Inr (Some (45 - drop_ratio d / 2, 1 / 2))"
    unfolding pair_intersection_def chord_intersection_def r_def [symmetric]
    by (simp add: station_mid_east_def station_mid_north_def new_station_def e1 e2 li
        ff [unfolded station_mid_east_def station_mid_north_def new_station_def])
  have G2: "1 / 2 \<le> degrees gam" using Dlow Glow by linarith
  have s1: "on_segment (45, 0) (degrees lam, degrees gam) (45 - r / 2, 1 / 2)"
  proof -
    define u where "u = 1 / (2 * degrees gam)"
    have "0 \<le> u" "u \<le> 1" using G2 Gpos by (simp_all add: u_def)
    moreover have "45 - r / 2 = 45 + u * (degrees lam - 45)"
      using ratio Gpos by (simp add: u_def field_simps)
    moreover have "1 / 2 = 0 + u * (degrees gam - 0)" using Gpos by (simp add: u_def)
    ultimately show ?thesis unfolding on_segment_def fst_conv snd_conv by blast
  qed
  have s2: "on_segment (89 / 2, 1 / 2) (89 / 2 + degrees t, 1 / 2) (45 - r / 2, 1 / 2)"
  proof -
    define u where "u = (1 / 2 - r / 2) / degrees t"
    have "0 \<le> u" using r Dlow by (simp add: u_def)
    moreover have "u \<le> 1" using r Dlow by (simp add: u_def)
    moreover have "45 - r / 2 = 89 / 2 + u * (89 / 2 + degrees t - 89 / 2)"
      using Dlow by (simp add: u_def)
    moreover have "(1 / 2 :: real) = 1 / 2 + u * (1 / 2 - 1 / 2)" by simp
    ultimately show ?thesis unfolding on_segment_def fst_conv snd_conv by blast
  qed
  show "within_chords station_mid_east station_mid_north d (45 - drop_ratio d / 2, 1 / 2)"
    unfolding within_chords_def r_def [symmetric]
    using s1 s2
    by (simp add: station_mid_east_def station_mid_north_def new_station_def e1 e2)
qed
section \<open>The forward filter near the pole\<close>

lemma py_fmod_range:
  assumes "0 < y"
  shows "0 \<le> py_fmod x y" "py_fmod x y < y"
proof -
  have a: "of_int \<lfloor>x / y\<rfloor> \<le> x / y" "x / y < of_int \<lfloor>x / y\<rfloor> + 1" by linarith+
  have "y * of_int \<lfloor>x / y\<rfloor> \<le> y * (x / y)" using a(1) assms by (intro mult_left_mono) simp_all
  then show "0 \<le> py_fmod x y" using assms by (simp add: py_fmod_def)
  have "y * (x / y) < y * (of_int \<lfloor>x / y\<rfloor> + 1)" using a(2) assms by (intro mult_strict_left_mono)
  then show "py_fmod x y < y" using assms by (simp add: py_fmod_def algebra_simps)
qed

lemma wrapped_deviation_range: "0 \<le> wrapped_deviation a b \<and> wrapped_deviation a b \<le> pi"
proof -
  have "0 \<le> py_fmod (a - b) (2 * pi)" "py_fmod (a - b) (2 * pi) < 2 * pi"
    using py_fmod_range [of "2 * pi" "a - b"] by simp_all
  then show ?thesis by (auto simp: wrapped_deviation_def Let_def)
qed

lemma py_fmod_shift:
  assumes "0 < y" "0 \<le> x + of_int k * y" "x + of_int k * y < y"
  shows "py_fmod x y = x + of_int k * y"
proof -
  have "of_int (- k) \<le> x / y" using assms by (simp add: field_simps)
  moreover have "x / y < of_int (- k) + 1" using assms by (simp add: field_simps)
  ultimately have "\<lfloor>x / y\<rfloor> = - k" by linarith
  then show ?thesis by (simp add: py_fmod_def algebra_simps)
qed

lemma angle_diff_is_wrapped:
  assumes "\<bar>a - b\<bar> \<le> 2 * pi"
  shows "angle_diff a b = wrapped_deviation a b"
proof -
  consider "0 \<le> a - b" "a - b < 2 * pi" | "a - b = 2 * pi" | "a - b < 0" "- (2 * pi) < a - b"
    | "a - b = - (2 * pi)"
    using assms by (auto simp: abs_le_iff) linarith
  then show ?thesis
  proof cases
    case 1
    then have "py_fmod (a - b) (2 * pi) = a - b + of_int 0 * (2 * pi)"
      by (intro py_fmod_shift) simp_all
    then show ?thesis using 1 by (simp add: angle_diff_def wrapped_deviation_def Let_def)
  next
    case 2
    then have "py_fmod (a - b) (2 * pi) = a - b + of_int (- 1) * (2 * pi)"
      by (intro py_fmod_shift) simp_all
    then show ?thesis using 2 by (simp add: angle_diff_def wrapped_deviation_def Let_def)
  next
    case 3
    then have "py_fmod (a - b) (2 * pi) = a - b + of_int 1 * (2 * pi)"
      by (intro py_fmod_shift) simp_all
    then show ?thesis using 3 by (auto simp: angle_diff_def wrapped_deviation_def Let_def abs_if)
  next
    case 4
    then have "py_fmod (a - b) (2 * pi) = a - b + of_int 1 * (2 * pi)"
      by (intro py_fmod_shift) simp_all
    then show ?thesis using 4 by (simp add: angle_diff_def wrapped_deviation_def Let_def)
  qed
qed

lemma sin_half_pi_minus: "sin (pi / 2 - x) = cos x"
  and cos_half_pi_minus: "cos (pi / 2 - x) = sin x"
  for x :: real
  by (simp_all add: sin_diff cos_diff)

lemma small_angles:
  "0 < pi / 1800" "pi / 1800 < 18 / 10000" "0 < pi / 180" "pi / 180 < 175 / 10000"
  using pi_upper pi_gt_zero by simp_all

lemma polar_trig_bounds:
  "0 < sin (pi / 1800)" "sin (pi / 1800) < 18 / 10000" "99 / 100 \<le> cos (pi / 1800)"
  "0 < sin (pi / 180)" "sin (pi / 180) < 175 / 10000" "99 / 100 \<le> cos (pi / 180)"
  "78 / 1000 \<le> sin (500 / 6371 :: real)" "0 < cos (500 / 6371 :: real)"
proof -
  have k: "0 < pi / 1800" "pi / 1800 < pi / 2" "0 < pi / 180" "pi / 180 < pi / 2" by simp_all
  show "0 < sin (pi / 1800)" using k by (intro sin_gt_zero2) simp_all
  show "0 < sin (pi / 180)" using k by (intro sin_gt_zero2) simp_all
  have "sin (pi / 1800) \<le> pi / 1800" by (intro sin_x_le_x) simp
  then show "sin (pi / 1800) < 18 / 10000" using small_angles by linarith
  have "sin (pi / 180) \<le> pi / 180" by (intro sin_x_le_x) simp
  then show "sin (pi / 180) < 175 / 10000" using small_angles by linarith
  have "(pi / 1800)\<^sup>2 \<le> (18 / 10000)\<^sup>2" using small_angles by (intro power_mono) simp_all
  then have "99 / 100 \<le> 1 - (pi / 1800)\<^sup>2 / 2" by (simp add: power_divide)
  then show "99 / 100 \<le> cos (pi / 1800)" using cos_lower2 [of "pi / 1800"] by linarith
  have "(pi / 180)\<^sup>2 \<le> (175 / 10000)\<^sup>2" using small_angles by (intro power_mono) simp_all
  then have "99 / 100 \<le> 1 - (pi / 180)\<^sup>2 / 2" by (simp add: power_divide)
  then show "99 / 100 \<le> cos (pi / 180)" using cos_lower2 [of "pi / 180"] by linarith
  have "(78 / 1000 :: real) \<le> 500 / 6371 - (500 / 6371) ^ 3 / 6" by (simp add: power_divide)
  then show "78 / 1000 \<le> sin (500 / 6371 :: real)" using sin_lower3 [of "500 / 6371"] by linarith
  have "(500 / 6371 :: real) < pi / 2" using pi_quarter_bounds by simp
  then show "0 < cos (500 / 6371 :: real)" by (intro cos_gt_zero_pi) simp_all
qed

lemma polar_v_bounds: "0 < polar_v" "polar_v \<le> 1"
  and polar_v_drop: "arcsin polar_v \<le> pi / 2 - pi / 1800 - 7 / 100"
proof -
  note b = polar_trig_bounds
  have p1: "0 < cos (pi / 1800) * cos (500 / 6371)" using b by (intro mult_pos_pos) simp_all
  have sd: "0 \<le> sin (500 / 6371 :: real)" using b(7) by linarith
  have p2: "0 \<le> sin (pi / 1800) * sin (500 / 6371)" using b sd by (intro mult_nonneg_nonneg) simp_all
  have p3: "0 \<le> sin (pi / 1800) * sin (500 / 6371) * cos (pi / 180)"
    using p2 b by (intro mult_nonneg_nonneg) simp_all
  show pos: "0 < polar_v" unfolding polar_v_def using p1 p3 by linarith
  have "sin (pi / 1800) * sin (500 / 6371) * cos (pi / 180) \<le> sin (pi / 1800) * sin (500 / 6371) * 1"
    using p2 by (intro mult_left_mono) simp_all
  then have "polar_v \<le> cos (pi / 1800) * cos (500 / 6371) + sin (pi / 1800) * sin (500 / 6371)"
    unfolding polar_v_def by simp
  also have "\<dots> = cos (500 / 6371 - pi / 1800)" by (simp add: cos_diff algebra_simps)
  finally have le: "polar_v \<le> cos (500 / 6371 - pi / 1800)" .
  then show "polar_v \<le> 1" using cos_le_one [of "500 / 6371 - pi / 1800"] by linarith
  have "pi / 1800 + 7 / 100 \<le> 500 / 6371 - pi / 1800" using small_angles by simp
  moreover have "0 \<le> pi / 1800 + 7 / 100" by simp
  moreover have "500 / 6371 - pi / 1800 \<le> pi" using pi_ge_two by simp
  ultimately have "cos (500 / 6371 - pi / 1800) \<le> cos (pi / 1800 + 7 / 100)"
    by (intro cos_monotone_0_pi_le) simp_all
  also have "\<dots> = sin (pi / 2 - pi / 1800 - 7 / 100)"
  proof -
    have "pi / 2 - pi / 1800 - 7 / 100 = pi / 2 - (pi / 1800 + 7 / 100)" by simp
    then show ?thesis by (simp only: sin_half_pi_minus)
  qed
  finally have "polar_v \<le> sin (pi / 2 - pi / 1800 - 7 / 100)" using le by linarith
  then have "arcsin polar_v \<le> arcsin (sin (pi / 2 - pi / 1800 - 7 / 100))"
    using pos by (intro arcsin_le_arcsin) simp_all
  also have "\<dots> = pi / 2 - pi / 1800 - 7 / 100"
    using pi_ge_two by (intro arcsin_sin) simp_all
  finally show "arcsin polar_v \<le> pi / 2 - pi / 1800 - 7 / 100" .
qed

lemma polar_endpoint:
  "calc_endpoint_haversine 89.9 0 359 500 = Inr (degrees (arcsin polar_v), degrees polar_g)"
proof -
  have r1: "radians 89.9 = pi / 2 - pi / 1800" by (simp add: radians_def field_simps)
  have r2: "radians 359 = 2 * pi - pi / 180" by (simp add: radians_def field_simps)
  have v: "sin (radians 89.9) * cos (500 / 6371) + cos (radians 89.9) * sin (500 / 6371) * cos (radians 359)
      = polar_v"
    unfolding r1 r2 sin_half_pi_minus cos_half_pi_minus cos_2pi_minus polar_v_def ..
  have sa: "sin (arcsin polar_v) = polar_v" using polar_v_bounds by simp
  have y: "sin (radians 359) * sin (500 / 6371) * cos (radians 89.9)
      = - sin (pi / 180) * sin (500 / 6371) * sin (pi / 1800)"
    unfolding r1 r2 cos_half_pi_minus sin_2pi_minus by simp
  have x: "cos (500 / 6371) - sin (radians 89.9) * polar_v = cos (500 / 6371) - cos (pi / 1800) * polar_v"
    unfolding r1 sin_half_pi_minus ..
  show ?thesis
    unfolding calc_endpoint_value v sa y x polar_g_def
    by (simp add: radians_def [of 0])
qed

lemma polar_g_range: "- pi < polar_g" "polar_g < - (pi / 2)"
proof -
  note b = polar_trig_bounds
  define y where "y = - sin (pi / 180) * sin (500 / 6371) * sin (pi / 1800)"
  define x where "x = cos (500 / 6371) - cos (pi / 1800) * polar_v"
  have sd: "0 < sin (500 / 6371 :: real)" using b(7) by linarith
  have "0 < sin (pi / 180) * sin (500 / 6371) * sin (pi / 1800)"
    using b sd by (intro mult_pos_pos) simp_all
  then have yn: "y < 0" by (simp add: y_def)
  have xe: "x = sin (pi / 1800) * (cos (500 / 6371) * sin (pi / 1800)
      - cos (pi / 1800) * sin (500 / 6371) * cos (pi / 180))"
  proof -
    have "x = cos (500 / 6371) * (1 - (cos (pi / 1800))\<^sup>2)
        - cos (pi / 1800) * sin (pi / 1800) * sin (500 / 6371) * cos (pi / 180)"
      by (simp add: x_def polar_v_def algebra_simps power2_eq_square)
    also have "1 - (cos (pi / 1800))\<^sup>2 = (sin (pi / 1800))\<^sup>2" by (simp add: sin_squared_eq)
    finally show ?thesis by (simp add: algebra_simps power2_eq_square)
  qed
  have "cos (500 / 6371) * sin (pi / 1800) \<le> 1 * sin (pi / 1800)"
    using b by (intro mult_right_mono) simp_all
  then have u: "cos (500 / 6371) * sin (pi / 1800) < 18 / 10000" using b(2) by linarith
  have "99 / 100 * (78 / 1000) \<le> cos (pi / 1800) * sin (500 / 6371)"
    using b by (intro mult_mono) simp_all
  then have "99 / 100 * (78 / 1000) * (99 / 100) \<le> cos (pi / 1800) * sin (500 / 6371) * cos (pi / 180)"
    using b by (intro mult_mono) simp_all
  then have l: "7 / 100 < cos (pi / 1800) * sin (500 / 6371) * cos (pi / 180)" by simp
  have "cos (500 / 6371) * sin (pi / 1800)
      - cos (pi / 1800) * sin (500 / 6371) * cos (pi / 180) < 0" using u l by linarith
  then have xn: "x < 0" unfolding xe using b(1) by (simp add: mult_pos_neg)
  have q: "0 < y / x" using xn yn by (simp add: divide_neg_neg)
  have g: "polar_g = arctan (y / x) - pi"
    unfolding polar_g_def x_def [symmetric] y_def [symmetric] using xn yn by (simp add: atan2_def)
  have "0 < arctan (y / x)" using q by simp
  moreover have "arctan (y / x) < pi / 2" by (rule arctan_ubound)
  ultimately show "- pi < polar_g" "polar_g < - (pi / 2)" unfolding g by linarith+
qed

lemma polar_r_bounds: "1 / 45 < polar_r" "polar_r < 1"
proof -
  define n where "n = (pi / 2 - pi / 1800) - arcsin polar_v"
  define m where "m = - polar_g"
  have "polar_r = (- n) / (- m)" by (simp add: polar_r_def n_def m_def)
  then have r: "polar_r = n / m" by simp
  have m: "pi / 2 < m" "m < pi" using polar_g_range by (simp_all add: m_def)
  have n1: "7 / 100 \<le> n" using polar_v_drop by (simp add: n_def)
  have "0 \<le> arcsin polar_v" using polar_v_bounds by (intro arcsin_nonneg) simp
  then have n2: "n < pi / 2" unfolding n_def using pi_gt_zero by linarith
  have "m < 45 * n" using m n1 pi_upper by linarith
  then show "1 / 45 < polar_r" unfolding r using m by (simp add: pos_less_divide_eq)
  show "polar_r < 1" unfolding r using m n2 by (simp add: pos_divide_less_eq)
qed

lemma tan_89_degrees: "45 < tan (pi / 2 - pi / 180)"
proof -
  note b = polar_trig_bounds
  have "45 * sin (pi / 180) < cos (pi / 180)" using b by linarith
  then show ?thesis
    unfolding tan_def sin_half_pi_minus cos_half_pi_minus using b(4) by (simp add: pos_less_divide_eq)
qed

lemma polar_dir:
  "atan2 (- 1) (- polar_r) = arctan (1 / polar_r) - pi"
  "arctan (1 / polar_r) < pi / 2 - pi / 180"
  "0 < arctan (1 / polar_r)"
proof -
  have r: "0 < polar_r" using polar_r_bounds by linarith
  then show "atan2 (- 1) (- polar_r) = arctan (1 / polar_r) - pi" by (simp add: atan2_def)
  have "1 / polar_r < 45" using polar_r_bounds r by (simp add: field_simps)
  then have "1 / polar_r < tan (pi / 2 - pi / 180)" using tan_89_degrees by linarith
  then have "arctan (1 / polar_r) < arctan (tan (pi / 2 - pi / 180))" by (simp only: arctan_less_iff)
  also have "\<dots> = pi / 2 - pi / 180" by (intro arctan_tan) simp_all
  finally show "arctan (1 / polar_r) < pi / 2 - pi / 180" .
  show "0 < arctan (1 / polar_r)" using r by simp
qed

lemma polar_pair:
  "pair_intersection polar_station arctic_station 500 = Inr (Some (89.9 - polar_r, - 1))"
proof -
  define L where "L = degrees (arcsin polar_v)"
  define G where "G = degrees polar_g"
  define D where "D = degrees (500 / 6371)"
  note r = polar_r_bounds
  have rpos: "0 < polar_r" using r by linarith
  have e1: "calc_endpoint_haversine 89.9 0 359 500 = Inr (L, G)"
    by (simp add: polar_endpoint L_def G_def)
  have "radians 80 + 500 / 6371 < pi / 2" using pi_lower by (simp add: radians_def)
  moreover have "- (pi / 2) < radians 80"
  proof -
    have "0 < radians 80" by (simp add: radians_def)
    then show ?thesis using pi_gt_zero by linarith
  qed
  ultimately have e2: "calc_endpoint_haversine 80 (- 1) 0 500 = Inr (80 + D, - 1)"
    using endpoint_north [of 80 500 "- 1"] by (simp add: D_def)
  have Dlow: "4 < D"
  proof -
    have "4 * pi < 500 / 6371 * 180" using pi_upper by simp
    then show ?thesis by (simp add: D_def degrees_def field_simps)
  qed
  have Gneg: "G < - 90"
  proof -
    have "polar_g * 180 < - 90 * pi" using polar_g_range by linarith
    then have "polar_g * 180 / pi < - 90" using pi_gt_zero by (simp add: pos_divide_less_eq)
    then show ?thesis by (simp add: G_def degrees_def)
  qed
  have ratio: "(L - 89.9) / G = polar_r"
  proof -
    define num where "num = arcsin polar_v - (pi / 2 - pi / 1800)"
    have "L - 89.9 = degrees num"
      by (simp add: L_def num_def degrees_def field_simps)
    moreover have "degrees num / degrees polar_g = num / polar_g"
      by (simp add: degrees_def)
    ultimately show ?thesis
      unfolding G_def polar_r_def num_def [symmetric] by simp
  qed
  have li: "line_intersection (0, 89.9) (G, L) (- 1, 80) (- 1, 80 + D) = Some (- 1, 89.9 - polar_r)"
  proof -
    have "90 * 4 < (- G) * D" using Gneg Dlow by (intro mult_strict_mono) simp_all
    then have "1 < \<bar>G * D\<bar>" by (simp add: abs_if)
    then have dn: "\<not> \<bar>G * D\<bar> < 1 / 10 ^ 10" by simp
    have tp: "- D / (G * D) = - (1 / G)" using Dlow by simp
    have "89.9 - (L - 89.9) / G = 89.9 - polar_r" using ratio by simp
    then have py: "899 / 10 + (L - 899 / 10) * (- (1 / G)) = 899 / 10 - polar_r"
      by (simp add: field_simps)
    show ?thesis
      unfolding line_intersection_def Let_def fst_conv snd_conv
      using dn Gneg tp py by (simp add: algebra_simps)
  qed
  have ff: "forward_filter polar_station arctic_station (- 1, 89.9 - polar_r) = Some (89.9 - polar_r, - 1)"
  proof -
    note d = polar_dir
    have a1: "angle_diff (arctan (1 / polar_r) - pi) (radians 359) < pi / 2"
    proof -
      have "radians 359 = 2 * pi - pi / 180" by (simp add: radians_def field_simps)
      then have "5 * pi / 2 < \<bar>arctan (1 / polar_r) - pi - radians 359\<bar>" using d by linarith
      then show ?thesis unfolding angle_diff_def Let_def using pi_gt_zero by (simp add: abs_if split: if_splits)
    qed
    have "atan2 0 (9.9 - polar_r) = 0" using r by (simp add: atan2_def)
    then have a2: "angle_diff (atan2 0 (9.9 - polar_r)) 0 < pi / 2"
      unfolding angle_diff_def Let_def by simp
    have s: "89.9 - polar_r - 80 = 9.9 - polar_r" by simp
    show ?thesis
      unfolding forward_filter_def Let_def
      using a1 a2 r
      by (simp add: polar_station_def arctic_station_def new_station_def d(1) s
          radians_def [of 0])
  qed
  show ?thesis
    unfolding pair_intersection_def chord_intersection_def
    by (simp add: polar_station_def arctic_station_def new_station_def e1 e2 li
        ff [unfolded polar_station_def arctic_station_def new_station_def])
qed

lemma forward_filter_guard:
  assumes "forward_filter s1 s2 (x, y) = Some p"
  shows "p = (y, x)"
    and "angle_diff (atan2 (x - lon s1) (y - lat s1)) (radians (azimuth s1)) < pi / 2"
    and "angle_diff (atan2 (x - lon s2) (y - lat s2)) (radians (azimuth s2)) < pi / 2"
  using assms by (auto simp: forward_filter_def Let_def split: if_splits)

section \<open>The UTM coordinates of Paris\<close>

lemma wgs_e2_sqrt:
  "sqrt (1 / 298.257223563 * (2 - 1 / 298.257223563)) * sqrt (1 / 298.257223563 * (2 - 1 / 298.257223563)) = wgs_e2"
  unfolding wgs_e2_def by (rule real_sqrt_mult_self [THEN trans]) simp

lemma lat_lon_to_utm_split:
  "lat_lon_to_utm la lo =
     (case utm_letter la of
        Inl err \<Rightarrow> Inl err
      | Inr letter \<Rightarrow>
          Inr (utm_zone la lo, letter,
               tm_easting (radians la)
                 ((radians lo - radians (of_int ((utm_zone la lo - 1) * 6 - 180 + 3))) * cos (radians la)),
               (if la < 0 then 10000000 else 0)
               + tm_northing (radians la)
                 ((radians lo - radians (of_int ((utm_zone la lo - 1) * 6 - 180 + 3))) * cos (radians la))))"
  unfolding lat_lon_to_utm_def Let_def wgs_e2_sqrt tm_easting_def tm_northing_def
    tm_N_def tm_T_def tm_C_def tm_M_def wgs_ep2_def
  by (simp split: sum.splits)

lemma mult_bounds:
  fixes x y :: real
  assumes "0 \<le> a" "a \<le> x" "x \<le> b" "0 \<le> c" "c \<le> y" "y \<le> d"
  shows "a * c \<le> x * y" "x * y \<le> b * d"
proof -
  show "a * c \<le> x * y" using assms by (intro mult_mono) simp_all
  show "x * y \<le> b * d" using assms by (intro mult_mono) simp_all
qed

lemma paris_p_bounds: "852707 / 10 ^ 6 \<le> paris_p" "paris_p \<le> 852711 / 10 ^ 6"
  using pi_lower pi_upper by (simp_all add: paris_p_def radians_def)

lemma paris_sin: "75306 / 10 ^ 5 \<le> sin paris_p" "sin paris_p \<le> 75308 / 10 ^ 5"
proof -
  note p = paris_p_bounds
  have h: "852711 / 10 ^ 6 \<le> pi / 2" using pi_ge_two by simp
  have "(75306 / 10 ^ 5 :: real) \<le> (852707 / 10 ^ 6) - (852707 / 10 ^ 6) ^ 3 / 6
      + (852707 / 10 ^ 6) ^ 5 / 120 - (852707 / 10 ^ 6) ^ 7 / 5040 - (852707 / 10 ^ 6) ^ 9 / 362880"
    by (simp add: power_divide)
  also have "\<dots> \<le> sin (852707 / 10 ^ 6)" by (intro sin_lower9) simp
  also have "\<dots> \<le> sin paris_p" using p h by (intro sin_monotone_2pi_le) simp_all
  finally show "75306 / 10 ^ 5 \<le> sin paris_p" .
  have "sin paris_p \<le> sin (852711 / 10 ^ 6)" using p h by (intro sin_monotone_2pi_le) simp_all
  also have "\<dots> \<le> (852711 / 10 ^ 6) - (852711 / 10 ^ 6) ^ 3 / 6
      + (852711 / 10 ^ 6) ^ 5 / 120 - (852711 / 10 ^ 6) ^ 7 / 5040 + (852711 / 10 ^ 6) ^ 9 / 362880"
    by (intro sin_upper9) simp
  also have "\<dots> \<le> (75308 / 10 ^ 5 :: real)" by (simp add: power_divide)
  finally show "sin paris_p \<le> 75308 / 10 ^ 5" .
qed

lemma paris_cos: "65792 / 10 ^ 5 \<le> cos paris_p" "cos paris_p \<le> 65795 / 10 ^ 5"
proof -
  note p = paris_p_bounds
  have h: "852711 / 10 ^ 6 \<le> pi" using pi_ge_two by simp
  have "(65792 / 10 ^ 5 :: real) \<le> 1 - (852711 / 10 ^ 6)\<^sup>2 / 2 + (852711 / 10 ^ 6) ^ 4 / 24
      - (852711 / 10 ^ 6) ^ 6 / 720 + (852711 / 10 ^ 6) ^ 8 / 40320 - (852711 / 10 ^ 6) ^ 10 / 3628800"
    by (simp add: power_divide)
  also have "\<dots> \<le> cos (852711 / 10 ^ 6)" by (rule cos_lower10)
  also have "\<dots> \<le> cos paris_p" using p h by (intro cos_monotone_0_pi_le) simp_all
  finally show "65792 / 10 ^ 5 \<le> cos paris_p" .
  have "cos paris_p \<le> cos (852707 / 10 ^ 6)" using p h by (intro cos_monotone_0_pi_le) simp_all
  also have "\<dots> \<le> 1 - (852707 / 10 ^ 6)\<^sup>2 / 2 + (852707 / 10 ^ 6) ^ 4 / 24
      - (852707 / 10 ^ 6) ^ 6 / 720 + (852707 / 10 ^ 6) ^ 8 / 40320 + (852707 / 10 ^ 6) ^ 10 / 3628800"
    by (rule cos_upper10)
  also have "\<dots> \<le> (65795 / 10 ^ 5 :: real)" by (simp add: power_divide)
  finally show "cos paris_p \<le> 65795 / 10 ^ 5" .
qed

lemma wgs_e2_bounds: "6694 / 10 ^ 6 \<le> wgs_e2" "wgs_e2 \<le> 6695 / 10 ^ 6"
  by (simp_all add: wgs_e2_def)

lemma wgs_ep2_bounds: "0 \<le> wgs_ep2" "wgs_ep2 \<le> 1 / 100"
  by (simp_all add: wgs_ep2_def wgs_e2_def)

lemma paris_N: "6390200 \<le> tm_N paris_p" "tm_N paris_p \<le> 6390400"
proof -
  note s = paris_sin
  define u where "u = 1 - wgs_e2 * (sin paris_p)\<^sup>2"
  have s2: "(75306 / 10 ^ 5)\<^sup>2 \<le> (sin paris_p)\<^sup>2" "(sin paris_p)\<^sup>2 \<le> (75308 / 10 ^ 5)\<^sup>2"
    using s by (simp_all add: power_mono)
  have p: "6694 / 10 ^ 6 * (75306 / 10 ^ 5)\<^sup>2 \<le> wgs_e2 * (sin paris_p)\<^sup>2"
    "wgs_e2 * (sin paris_p)\<^sup>2 \<le> 6695 / 10 ^ 6 * (75308 / 10 ^ 5)\<^sup>2"
    using mult_bounds [OF _ wgs_e2_bounds _ s2] by simp_all
  have ul: "(99809 / 10 ^ 5)\<^sup>2 \<le> u"
  proof -
    have "(99809 / 10 ^ 5 :: real)\<^sup>2 \<le> 1 - 6695 / 10 ^ 6 * (75308 / 10 ^ 5)\<^sup>2"
      by (simp add: power_divide)
    then show ?thesis unfolding u_def using p(2) by linarith
  qed
  have uu: "u \<le> (99811 / 10 ^ 5)\<^sup>2"
  proof -
    have "1 - 6694 / 10 ^ 6 * (75306 / 10 ^ 5)\<^sup>2 \<le> (99811 / 10 ^ 5 :: real)\<^sup>2"
      by (simp add: power_divide)
    then show ?thesis unfolding u_def using p(1) by linarith
  qed
  have q1: "99809 / 10 ^ 5 \<le> sqrt u" using ul by (intro real_le_rsqrt)
  have "(0::real) < (99809 / 10 ^ 5)\<^sup>2" by simp
  then have upos: "0 < u" using ul by linarith
  then have q2: "sqrt u \<le> 99811 / 10 ^ 5" using uu by (intro real_le_lsqrt) simp_all
  have pos: "0 < sqrt u" using upos by simp
  have "6378137 / (99811 / 10 ^ 5) \<le> 6378137 / sqrt u"
    using q2 pos by (intro divide_left_mono) simp_all
  moreover have "(6390200::real) \<le> 6378137 / (99811 / 10 ^ 5)" by simp
  ultimately show "6390200 \<le> tm_N paris_p" unfolding tm_N_def u_def by linarith
  have "6378137 / sqrt u \<le> 6378137 / (99809 / 10 ^ 5)"
    using q1 pos by (intro divide_left_mono) simp_all
  moreover have "6378137 / (99809 / 10 ^ 5) \<le> (6390400::real)" by simp
  ultimately show "tm_N paris_p \<le> 6390400" unfolding tm_N_def u_def by linarith
qed

lemma paris_tan: "11445 / 10 ^ 4 \<le> tan paris_p" "tan paris_p \<le> 11447 / 10 ^ 4"
proof -
  note s = paris_sin and c = paris_cos
  have cp: "0 < cos paris_p" using c by (simp add: power_divide)
  have "11445 / 10 ^ 4 * cos paris_p \<le> 11445 / 10 ^ 4 * (65795 / 10 ^ 5)"
    using c by (intro mult_left_mono) simp_all
  also have "\<dots> \<le> (75306 / 10 ^ 5 :: real)" by simp
  finally have "11445 / 10 ^ 4 * cos paris_p \<le> sin paris_p" using s by linarith
  then show "11445 / 10 ^ 4 \<le> tan paris_p" unfolding tan_def using cp by (simp add: pos_le_divide_eq)
  have "(75308 / 10 ^ 5 :: real) \<le> 11447 / 10 ^ 4 * (65792 / 10 ^ 5)" by simp
  also have "\<dots> \<le> 11447 / 10 ^ 4 * cos paris_p" using c by (intro mult_left_mono) simp_all
  finally have "sin paris_p \<le> 11447 / 10 ^ 4 * cos paris_p" using s by linarith
  then show "tan paris_p \<le> 11447 / 10 ^ 4" unfolding tan_def using cp by (simp add: pos_divide_le_eq)
qed

lemma paris_T: "0 \<le> tm_T paris_p" "tm_T paris_p \<le> 2"
proof -
  show "0 \<le> tm_T paris_p" by (simp add: tm_T_def)
  have "0 \<le> tan paris_p" using paris_tan by (simp add: power_divide)
  then have "(tan paris_p)\<^sup>2 \<le> (11447 / 10 ^ 4)\<^sup>2" using paris_tan by (intro power_mono) simp_all
  also have "\<dots> \<le> (2::real)" by (simp add: power_divide)
  finally show "tm_T paris_p \<le> 2" by (simp add: tm_T_def)
qed

lemma paris_C: "0 \<le> tm_C paris_p" "tm_C paris_p \<le> 1 / 100"
proof -
  have c2: "0 \<le> (cos paris_p)\<^sup>2" "(cos paris_p)\<^sup>2 \<le> 1"
    by (simp_all add: abs_square_le_1)
  show "0 \<le> tm_C paris_p" using wgs_ep2_bounds c2 by (simp add: tm_C_def)
  have "wgs_ep2 * (cos paris_p)\<^sup>2 \<le> 1 / 100 * 1"
    using wgs_ep2_bounds c2 by (intro mult_mono) simp_all
  then show "tm_C paris_p \<le> 1 / 100" by (simp add: tm_C_def)
qed

lemma paris_B_bounds: "74385 / 10 ^ 7 \<le> paris_B" "paris_B \<le> 74393 / 10 ^ 7"
proof -
  note c = paris_cos
  have k: "113062 / 10 ^ 7 \<le> 0.6478 * pi / 180" "0.6478 * pi / 180 \<le> 113063 / 10 ^ 7"
    using pi_lower pi_upper by simp_all
  have "113062 / 10 ^ 7 * (65792 / 10 ^ 5) \<le> 0.6478 * pi / 180 * cos paris_p"
    using k c by (intro mult_mono) simp_all
  moreover have "(74385 / 10 ^ 7 :: real) \<le> 113062 / 10 ^ 7 * (65792 / 10 ^ 5)" by simp
  ultimately show "74385 / 10 ^ 7 \<le> paris_B" unfolding paris_B_def by linarith
  have c0: "0 \<le> cos paris_p" using c by (simp add: power_divide)
  have "0.6478 * pi / 180 * cos paris_p \<le> 113063 / 10 ^ 7 * (65795 / 10 ^ 5)"
    using k c c0 by (intro mult_mono) simp_all
  moreover have "113063 / 10 ^ 7 * (65795 / 10 ^ 5) \<le> (74393 / 10 ^ 7 :: real)" by simp
  ultimately show "paris_B \<le> 74393 / 10 ^ 7" unfolding paris_B_def by linarith
qed

lemma paris_B_powers:
  "0 \<le> paris_B" "paris_B ^ 3 \<le> 1 / 10 ^ 6" "paris_B ^ 4 \<le> 1 / 10 ^ 8"
  "paris_B ^ 5 \<le> 1 / 10 ^ 10" "paris_B ^ 6 \<le> 1 / 10 ^ 12"
proof -
  show b0: "0 \<le> paris_B" using paris_B_bounds by (simp add: power_divide)
  have b1: "paris_B \<le> 1 / 100" using paris_B_bounds by simp
  have "paris_B ^ n \<le> (1 / 100) ^ n" for n using b0 b1 by (intro power_mono)
  from this [of 3] this [of 4] this [of 5] this [of 6]
  show "paris_B ^ 3 \<le> 1 / 10 ^ 6" "paris_B ^ 4 \<le> 1 / 10 ^ 8"
    "paris_B ^ 5 \<le> 1 / 10 ^ 10" "paris_B ^ 6 \<le> 1 / 10 ^ 12"
    by (simp_all add: power_divide)
qed

lemma small_term:
  fixes g b :: real
  assumes "\<bar>g\<bar> \<le> G" "0 \<le> b" "b \<le> e" "0 < k"
  shows "\<bar>g * b / k\<bar> \<le> G * e / k"
proof -
  have "0 \<le> G" using assms(1) by linarith
  have "\<bar>g * b / k\<bar> = \<bar>g\<bar> * b / k" using assms by (simp add: abs_mult)
  also have "\<dots> \<le> G * e / k"
    using assms \<open>0 \<le> G\<close> by (intro divide_right_mono mult_mono) simp_all
  finally show ?thesis .
qed

lemma easting_shape:
  fixes k n b c d g3 g5 h :: real
  shows "k * n * (- b + g3 * (- c) / 6 + g5 * (- d) / 120) + h
       = h - k * (n * (b + (g3 * c / 6 + g5 * d / 120)))"
  by (simp add: algebra_simps)

lemma paris_easting: "452472 \<le> tm_easting paris_p (- paris_B)" "tm_easting paris_p (- paris_B) \<le> 452492"
proof -
  note T = paris_T and C = paris_C and B = paris_B_bounds and P = paris_B_powers and N = paris_N
    and e = wgs_ep2_bounds
  define g3 where "g3 = 1 - tm_T paris_p + tm_C paris_p"
  define g5 where "g5 = 5 - 18 * tm_T paris_p + (tm_T paris_p)\<^sup>2 + 72 * tm_C paris_p - 58 * wgs_ep2"
  define X where "X = g3 * paris_B ^ 3 / 6 + g5 * paris_B ^ 5 / 120"
  have T2: "0 \<le> (tm_T paris_p)\<^sup>2" "(tm_T paris_p)\<^sup>2 \<le> 4"
  proof -
    show "0 \<le> (tm_T paris_p)\<^sup>2" by simp
    have "(tm_T paris_p)\<^sup>2 \<le> 2\<^sup>2" using T by (intro power_mono) simp_all
    then show "(tm_T paris_p)\<^sup>2 \<le> 4" by simp
  qed
  have g3: "\<bar>g3\<bar> \<le> 2" unfolding g3_def using T C by linarith
  have g5: "\<bar>g5\<bar> \<le> 47" unfolding g5_def using T C T2 e by linarith
  define y3 where "y3 = g3 * paris_B ^ 3 / 6"
  define y5 where "y5 = g5 * paris_B ^ 5 / 120"
  have "\<bar>g3 * paris_B ^ 3 / 6\<bar> \<le> 2 * (1 / 10 ^ 6) / 6"
    using g3 P by (intro small_term) simp_all
  then have x3: "\<bar>y3\<bar> \<le> 4 / 10000000" unfolding y3_def by simp
  have "\<bar>g5 * paris_B ^ 5 / 120\<bar> \<le> 47 * (1 / 10 ^ 10) / 120"
    using g5 P by (intro small_term) simp_all
  then have x5: "\<bar>y5\<bar> \<le> 1 / 10000000" unfolding y5_def by simp
  have "X = y3 + y5" by (simp add: X_def y3_def y5_def)
  then have X: "\<bar>X\<bar> \<le> 1 / 1000000" using x3 x5 by linarith
  have m: "(- paris_B) ^ 3 = - (paris_B ^ 3)" "(- paris_B) ^ 5 = - (paris_B ^ 5)" by simp_all
  have E: "tm_easting paris_p (- paris_B) = 500000 - 0.9996 * (tm_N paris_p * (paris_B + X))"
    unfolding tm_easting_def m X_def g3_def [symmetric] g5_def [symmetric]
    by (rule easting_shape)
  have B': "74385 / 10000000 \<le> paris_B" "paris_B \<le> 74393 / 10000000" using B by simp_all
  have "74385 / 10000000 - 1 / 1000000 \<le> paris_B + X" "paris_B + X \<le> 74393 / 10000000 + 1 / 1000000"
    using B' X by linarith+
  then have lo: "74385 / 10 ^ 7 - 1 / 10 ^ 6 \<le> paris_B + X" and hi: "paris_B + X \<le> 74393 / 10 ^ 7 + 1 / 10 ^ 6"
    by simp_all
  have NB: "6390200 * (74385 / 10 ^ 7 - 1 / 10 ^ 6) \<le> tm_N paris_p * (paris_B + X)"
    "tm_N paris_p * (paris_B + X) \<le> 6390400 * (74393 / 10 ^ 7 + 1 / 10 ^ 6)"
    using mult_bounds [OF _ N _ lo hi] by simp_all
  have "6390400 * (74393 / 10 ^ 7 + 1 / 10 ^ 6) \<le> (47528 / 0.9996 :: real)" by simp
  then have "0.9996 * (tm_N paris_p * (paris_B + X)) \<le> 47528" using NB(2) by simp
  then show "452472 \<le> tm_easting paris_p (- paris_B)" unfolding E by linarith
  have "(47508 / 0.9996 :: real) \<le> 6390200 * (74385 / 10 ^ 7 - 1 / 10 ^ 6)" by simp
  then have "47508 \<le> 0.9996 * (tm_N paris_p * (paris_B + X))" using NB(1) by simp
  then show "tm_easting paris_p (- paris_B) \<le> 452492" unfolding E by linarith
qed

lemma meridian_coefficients:
  "998324 / 1000000 \<le> 1 - wgs_e2 / 4 - 3 * wgs_e2\<^sup>2 / 64 - 5 * wgs_e2 ^ 3 / 256"
  "1 - wgs_e2 / 4 - 3 * wgs_e2\<^sup>2 / 64 - 5 * wgs_e2 ^ 3 / 256 \<le> 998325 / 1000000"
  "25146 / 10000000 \<le> 3 * wgs_e2 / 8 + 3 * wgs_e2\<^sup>2 / 32 + 45 * wgs_e2 ^ 3 / 1024"
  "3 * wgs_e2 / 8 + 3 * wgs_e2\<^sup>2 / 32 + 45 * wgs_e2 ^ 3 / 1024 \<le> 25147 / 10000000"
  "0 \<le> 15 * wgs_e2\<^sup>2 / 256 + 45 * wgs_e2 ^ 3 / 1024"
  "15 * wgs_e2\<^sup>2 / 256 + 45 * wgs_e2 ^ 3 / 1024 \<le> 3 / 1000000"
  "0 \<le> 35 * wgs_e2 ^ 3 / 3072"
  "35 * wgs_e2 ^ 3 / 3072 \<le> 1 / 100000000"
  by (simp_all add: wgs_e2_def power_divide)

lemma paris_sin2: "99090 / 100000 \<le> sin (2 * paris_p)" "sin (2 * paris_p) \<le> 99098 / 100000"
proof -
  note s = paris_sin and c = paris_cos
  have sc: "75306 / 10 ^ 5 * (65792 / 10 ^ 5) \<le> sin paris_p * cos paris_p"
    "sin paris_p * cos paris_p \<le> 75308 / 10 ^ 5 * (65795 / 10 ^ 5)"
    using mult_bounds [OF _ s _ c] by simp_all
  have "(99090 / 100000 :: real) \<le> 2 * (75306 / 10 ^ 5 * (65792 / 10 ^ 5))" by simp
  then show "99090 / 100000 \<le> sin (2 * paris_p)" unfolding sin_double using sc(1) by linarith
  have "2 * (75308 / 10 ^ 5 * (65795 / 10 ^ 5)) \<le> (99098 / 100000 :: real)" by simp
  then show "sin (2 * paris_p) \<le> 99098 / 100000" unfolding sin_double using sc(2) by linarith
qed

lemma paris_M: "5413650 \<le> tm_M paris_p" "tm_M paris_p \<le> 5413728"
proof -
  note k = meridian_coefficients and p = paris_p_bounds and s2 = paris_sin2
  define c1 where "c1 = 1 - wgs_e2 / 4 - 3 * wgs_e2\<^sup>2 / 64 - 5 * wgs_e2 ^ 3 / 256"
  define c2 where "c2 = 3 * wgs_e2 / 8 + 3 * wgs_e2\<^sup>2 / 32 + 45 * wgs_e2 ^ 3 / 1024"
  define c3 where "c3 = 15 * wgs_e2\<^sup>2 / 256 + 45 * wgs_e2 ^ 3 / 1024"
  define c4 where "c4 = 35 * wgs_e2 ^ 3 / 3072"
  define t1 where "t1 = c1 * paris_p"
  define t2 where "t2 = c2 * sin (2 * paris_p)"
  define t3 where "t3 = c3 * sin (4 * paris_p)"
  define t4 where "t4 = c4 * sin (6 * paris_p)"
  have p': "852707 / 1000000 \<le> paris_p" "paris_p \<le> 852711 / 1000000" using p by simp_all
  have b1: "998324 / 1000000 * (852707 / 1000000) \<le> t1" "t1 \<le> 998325 / 1000000 * (852711 / 1000000)"
    unfolding t1_def c1_def using mult_bounds [OF _ k(1,2) _ p'] by simp_all
  have b2: "25146 / 10000000 * (99090 / 100000) \<le> t2" "t2 \<le> 25147 / 10000000 * (99098 / 100000)"
    unfolding t2_def c2_def using mult_bounds [OF _ k(3,4) _ s2] by simp_all
  have b3: "\<bar>t3\<bar> \<le> 3 / 1000000"
  proof -
    have "\<bar>t3\<bar> = c3 * \<bar>sin (4 * paris_p)\<bar>" unfolding t3_def c3_def using k(5) by (simp add: abs_mult)
    also have "\<dots> \<le> 3 / 1000000 * 1" unfolding c3_def using k(5,6) by (intro mult_mono) simp_all
    finally show ?thesis by simp
  qed
  have b4: "\<bar>t4\<bar> \<le> 1 / 100000000"
  proof -
    have "\<bar>t4\<bar> = c4 * \<bar>sin (6 * paris_p)\<bar>" unfolding t4_def c4_def using k(7) by (simp add: abs_mult)
    also have "\<dots> \<le> 1 / 100000000 * 1" unfolding c4_def using k(7,8) by (intro mult_mono) simp_all
    finally show ?thesis by simp
  qed
  have M: "tm_M paris_p = 6378137 * (t1 - t2 + t3 - t4)"
    unfolding tm_M_def t1_def t2_def t3_def t4_def c1_def c2_def c3_def c4_def ..
  have lo: "5413650 / 6378137 \<le> t1 - t2 + t3 - t4"
  proof -
    have "(5413650 / 6378137 :: real) \<le> 998324 / 1000000 * (852707 / 1000000)
        - 25147 / 10000000 * (99098 / 100000) - 3 / 1000000 - 1 / 100000000" by simp
    then show ?thesis using b1(1) b2(2) b3 b4 by linarith
  qed
  have hi: "t1 - t2 + t3 - t4 \<le> 5413728 / 6378137"
  proof -
    have "998325 / 1000000 * (852711 / 1000000)
        - 25146 / 10000000 * (99090 / 100000) + 3 / 1000000 + 1 / 100000000 \<le> (5413728 / 6378137 :: real)" by simp
    then show ?thesis using b1(2) b2(1) b3 b4 by linarith
  qed
  show "5413650 \<le> tm_M paris_p" unfolding M using lo by (simp add: pos_divide_le_eq mult.commute)
  show "tm_M paris_p \<le> 5413728" unfolding M using hi by (simp add: pos_le_divide_eq mult.commute)
qed

lemma paris_northing: "5411686 \<le> tm_northing paris_p (- paris_B)" "tm_northing paris_p (- paris_B) \<le> 5411766"
proof -
  note T = paris_T and C = paris_C and B = paris_B_bounds and P = paris_B_powers and N = paris_N
    and e = wgs_ep2_bounds and t = paris_tan and M = paris_M
  define g4 where "g4 = 5 - tm_T paris_p + 9 * tm_C paris_p + 4 * (tm_C paris_p)\<^sup>2"
  define g6 where "g6 = 61 - 58 * tm_T paris_p + (tm_T paris_p)\<^sup>2 + 600 * tm_C paris_p - 330 * wgs_ep2"
  define y4 where "y4 = g4 * paris_B ^ 4 / 24"
  define y6 where "y6 = g6 * paris_B ^ 6 / 720"
  define Y where "Y = paris_B\<^sup>2 / 2 + y4 + y6"
  define Q where "Q = tm_N paris_p * tan paris_p * Y"
  have T2: "0 \<le> (tm_T paris_p)\<^sup>2" "(tm_T paris_p)\<^sup>2 \<le> 4"
  proof -
    show "0 \<le> (tm_T paris_p)\<^sup>2" by simp
    have "(tm_T paris_p)\<^sup>2 \<le> 2\<^sup>2" using T by (intro power_mono) simp_all
    then show "(tm_T paris_p)\<^sup>2 \<le> 4" by simp
  qed
  have C2: "0 \<le> (tm_C paris_p)\<^sup>2" "(tm_C paris_p)\<^sup>2 \<le> 1"
  proof -
    show "0 \<le> (tm_C paris_p)\<^sup>2" by simp
    have "(tm_C paris_p)\<^sup>2 \<le> (1 / 100)\<^sup>2" using C by (intro power_mono) simp_all
    then show "(tm_C paris_p)\<^sup>2 \<le> 1" by (simp add: power_divide)
  qed
  have g4: "\<bar>g4\<bar> \<le> 10" unfolding g4_def using T C C2 by linarith
  have g6: "\<bar>g6\<bar> \<le> 191" unfolding g6_def using T C T2 e by linarith
  have "\<bar>g4 * paris_B ^ 4 / 24\<bar> \<le> 10 * (1 / 10 ^ 8) / 24"
    using g4 P by (intro small_term) simp_all
  then have x4: "\<bar>y4\<bar> \<le> 5 / 1000000000" unfolding y4_def by simp
  have "\<bar>g6 * paris_B ^ 6 / 720\<bar> \<le> 191 * (1 / 10 ^ 12) / 720"
    using g6 P by (intro small_term) simp_all
  then have x6: "\<bar>y6\<bar> \<le> 1 / 1000000000" unfolding y6_def by simp
  have B2: "(74385 / 10 ^ 7)\<^sup>2 \<le> paris_B\<^sup>2" "paris_B\<^sup>2 \<le> (74393 / 10 ^ 7)\<^sup>2"
    using B P(1) by (simp_all add: power_mono)
  have Yl: "27655 / 1000000000 \<le> Y"
  proof -
    have "(27655 / 1000000000 :: real) \<le> (74385 / 10 ^ 7)\<^sup>2 / 2 - 5 / 1000000000 - 1 / 1000000000"
      by (simp add: power_divide)
    then show ?thesis unfolding Y_def using B2(1) x4 x6 by linarith
  qed
  have Yu: "Y \<le> 27683 / 1000000000"
  proof -
    have "(74393 / 10 ^ 7)\<^sup>2 / 2 + 5 / 1000000000 + 1 / 1000000000 \<le> (27683 / 1000000000 :: real)"
      by (simp add: power_divide)
    then show ?thesis unfolding Y_def using B2(2) x4 x6 by linarith
  qed
  have Nt: "6390200 * (11445 / 10 ^ 4) \<le> tm_N paris_p * tan paris_p"
    "tm_N paris_p * tan paris_p \<le> 6390400 * (11447 / 10 ^ 4)"
    using mult_bounds [OF _ N _ t] by simp_all
  have Qb: "6390200 * (11445 / 10 ^ 4) * (27655 / 1000000000) \<le> Q"
    "Q \<le> 6390400 * (11447 / 10 ^ 4) * (27683 / 1000000000)"
    unfolding Q_def using mult_bounds [OF _ Nt _ Yl Yu] by simp_all
  have Q: "202 \<le> Q" "Q \<le> 203"
  proof -
    have "(202::real) \<le> 6390200 * (11445 / 10 ^ 4) * (27655 / 1000000000)" by simp
    then show "202 \<le> Q" using Qb(1) by linarith
    have "6390400 * (11447 / 10 ^ 4) * (27683 / 1000000000) \<le> (203::real)" by simp
    then show "Q \<le> 203" using Qb(2) by linarith
  qed
  have m: "(- paris_B)\<^sup>2 = paris_B\<^sup>2" "(- paris_B) ^ 4 = paris_B ^ 4" "(- paris_B) ^ 6 = paris_B ^ 6"
    by simp_all
  have E: "tm_northing paris_p (- paris_B) = 0.9996 * (tm_M paris_p + Q)"
    unfolding tm_northing_def m Q_def Y_def y4_def y6_def g4_def g6_def
    by (simp add: add.assoc)
  have "5413852 \<le> tm_M paris_p + Q" "tm_M paris_p + Q \<le> 5413931" using M Q by linarith+
  then show "5411686 \<le> tm_northing paris_p (- paris_B)" "tm_northing paris_p (- paris_B) \<le> 5411766"
    unfolding E by simp_all
qed

lemma utm_paris:
  "lat_lon_to_utm 48.8566 2.3522 =
     Inr (31, CHR ''U'', tm_easting paris_p (- paris_B), tm_northing paris_p (- paris_B))"
proof -
  have l: "utm_letter 48.8566 = Inr (CHR ''U'')"
    by (simp add: utm_letter_def band_index_def py_int_def py_index_def)
  have z: "utm_zone 48.8566 2.3522 = 31"
    by (simp add: utm_zone_def py_int_def)
  have A: "(radians 2.3522 - radians 3) * cos paris_p = - paris_B"
    by (simp add: paris_B_def radians_def field_simps)
  have step: "lat_lon_to_utm 48.8566 2.3522 =
     Inr (31, CHR ''U'', tm_easting paris_p ((radians 2.3522 - radians 3) * cos paris_p),
          tm_northing paris_p ((radians 2.3522 - radians 3) * cos paris_p))"
    unfolding lat_lon_to_utm_split l z paris_p_def [symmetric] by simp
  show ?thesis unfolding step A ..
qed

section \<open>Rounding to binary64\<close>

lemma rounded_exact:
  "calc_endpoint_haversine_rounded (\<lambda>x. x) la lo az d = calc_endpoint_haversine la lo az d"
  by (simp add: calc_endpoint_haversine_rounded_def calc_endpoint_haversine_def radians_def
      degrees_def Let_def split: sum.splits)

lemma round_half_even_between:
  assumes "of_int m - 1 / 2 < y" "y < of_int m + 1 / 2"
  shows "round_half_even y = m"
proof (cases "of_int m \<le> y")
  case True
  then have f: "\<lfloor>y\<rfloor> = m" using assms by (intro floor_unique) linarith+
  show ?thesis unfolding round_half_even_def Let_def f using assms by simp
next
  case False
  have "\<lfloor>y\<rfloor> = m - 1"
  proof (intro floor_unique)
    show "of_int (m - 1) \<le> y" using assms by simp
    show "y < of_int (m - 1) + 1" using False by simp
  qed
  then show ?thesis unfolding round_half_even_def Let_def using assms False by simp
qed

lemma double_exponent:
  assumes "2 powi e \<le> \<bar>x\<bar>" "\<bar>x\<bar> < 2 powi (e + 1)"
  shows "\<lfloor>log 2 \<bar>x\<bar>\<rfloor> = e"
proof -
  have "(0::real) < 2 powi e" by simp
  then have p: "0 < \<bar>x\<bar>" using assms(1) by linarith
  have q: "(2::real) powi k = 2 powr (of_int k)" for k
    by (simp add: powr_real_of_int')
  have a: "of_int e \<le> log 2 \<bar>x\<bar>"
    using assms(1) p unfolding q [of e] by (simp add: le_log_iff)
  have b: "log 2 \<bar>x\<bar> < of_int (e + 1)"
    using assms(2) p unfolding q [of "e + 1"] by (subst log_less_iff) simp_all
  show ?thesis using a b by (intro floor_unique) simp_all
qed

lemma double_round_between:
  assumes "2 powi e \<le> \<bar>x\<bar>" "\<bar>x\<bar> < 2 powi (e + 1)"
    and "(of_int m - 1 / 2) * 2 powi (e - 52) < x" "x < (of_int m + 1 / 2) * 2 powi (e - 52)"
  shows "double_round x = of_int m * 2 powi (e - 52)"
proof -
  have u: "(0::real) < 2 powi (e - 52)" by simp
  have pos: "(0::real) < 2 powi e" by simp
  have nz: "x \<noteq> 0" using assms(1) pos by linarith
  have "of_int m - 1 / 2 < x / 2 powi (e - 52)" "x / 2 powi (e - 52) < of_int m + 1 / 2"
    using assms(3,4) u by (simp_all add: pos_less_divide_eq pos_divide_less_eq)
  then have "round_half_even (x / 2 powi (e - 52)) = m" by (rule round_half_even_between)
  then show ?thesis
    unfolding double_round_def Let_def double_exponent [OF assms(1,2)] using nz by simp
qed

lemma double_round_value:
  fixes lo u x v :: real
  assumes "lo = 2 powi e" "u = 2 powi (e - 52)"
    and "lo \<le> \<bar>x\<bar>" "\<bar>x\<bar> < 2 * lo"
    and "(of_int m - 1 / 2) * u < x" "x < (of_int m + 1 / 2) * u"
    and "v = of_int m * u"
  shows "double_round x = v"
proof -
  have "(2::real) powi (e + 1) = 2 * 2 powi e" by (simp add: power_int_add)
  then show ?thesis
    using double_round_between [of e x m] assms by simp
qed

lemma term_lower:
  fixes x l l' q :: real
  assumes "l \<le> x ^ k / fact k" "k' = k + 2" "x * x = q"
    and "l' * (real (k + 1) * real (k + 2)) \<le> l * q"
  shows "l' \<le> x ^ k' / fact k'"
proof -
  define c where "c = real (k + 1) * real (k + 2)"
  define u where "u = x ^ k / fact k"
  have c: "0 < c" by (simp add: c_def)
  have f: "fact (k + 2) = (fact k :: real) * c" by (simp add: c_def algebra_simps)
  have p: "x ^ (k + 2) = x ^ k * (x * x)" by (simp add: power_add power2_eq_square)
  have "x ^ (k + 2) / (fact k * c) = u * (x * x) / c" unfolding p u_def by simp
  then have e: "x ^ k' / fact k' = u * q / c" unfolding assms(2) f assms(3) .
  have q: "0 \<le> q" unfolding assms(3) [symmetric] by simp
  have "l * q \<le> u * q" using assms(1) q unfolding u_def by (rule mult_right_mono)
  then have "l' * c \<le> u * q" using assms(4) unfolding c_def by linarith
  then have "l' \<le> u * q / c" using c by (simp add: pos_le_divide_eq)
  then show ?thesis unfolding e .
qed

lemma term_upper:
  fixes x h h' q :: real
  assumes "x ^ k / fact k \<le> h" "k' = k + 2" "x * x = q"
    and "h * q \<le> h' * (real (k + 1) * real (k + 2))"
  shows "x ^ k' / fact k' \<le> h'"
proof -
  define c where "c = real (k + 1) * real (k + 2)"
  define u where "u = x ^ k / fact k"
  have c: "0 < c" by (simp add: c_def)
  have f: "fact (k + 2) = (fact k :: real) * c" by (simp add: c_def algebra_simps)
  have p: "x ^ (k + 2) = x ^ k * (x * x)" by (simp add: power_add power2_eq_square)
  have "x ^ (k + 2) / (fact k * c) = u * (x * x) / c" unfolding p u_def by simp
  then have e: "x ^ k' / fact k' = u * q / c" unfolding assms(2) f assms(3) .
  have q: "0 \<le> q" unfolding assms(3) [symmetric] by simp
  have "u * q \<le> h * q" using assms(1) q unfolding u_def by (rule mult_right_mono)
  then have "u * q \<le> h' * c" using assms(4) unfolding c_def by linarith
  then have "u * q / c \<le> h'" using c by (simp add: pos_divide_le_eq)
  then show ?thesis unfolding e .
qed

lemma sin_terms13:
  fixes x :: real
  shows "\<bar>sin x - (x ^ 1 / fact 1 - x ^ 3 / fact 3 + x ^ 5 / fact 5 - x ^ 7 / fact 7 + x ^ 9 / fact 9 - x ^ 11 / fact 11)\<bar> \<le> \<bar>x\<bar> ^ 13 / fact 13"
proof -
  have s: "(\<Sum>m<13. f m) = f 0 + f 1 + f 2 + f 3 + f 4 + f 5 + f 6 + f 7 + f 8 + f 9 + f 10 + f 11 + f 12" for f :: "nat \<Rightarrow> real"
    by (simp add: eval_nat_numeral)
  have c:
    "sin_coeff 0 = 0"
    "sin_coeff 1 = 1 / fact 1"
    "sin_coeff 2 = 0"
    "sin_coeff 3 = - (1 / fact 3)"
    "sin_coeff 4 = 0"
    "sin_coeff 5 = 1 / fact 5"
    "sin_coeff 6 = 0"
    "sin_coeff 7 = - (1 / fact 7)"
    "sin_coeff 8 = 0"
    "sin_coeff 9 = 1 / fact 9"
    "sin_coeff 10 = 0"
    "sin_coeff 11 = - (1 / fact 11)"
    "sin_coeff 12 = 0"
    by (simp_all add: sin_coeff_def)
  have "(\<Sum>m<13. sin_coeff m * x ^ m) = x ^ 1 / fact 1 - x ^ 3 / fact 3 + x ^ 5 / fact 5 - x ^ 7 / fact 7 + x ^ 9 / fact 9 - x ^ 11 / fact 11"
    unfolding s c by simp
  then show ?thesis using sin_taylor [of x 13] by simp
qed

lemma cos_terms14:
  fixes x :: real
  shows "\<bar>cos x - (x ^ 0 / fact 0 - x ^ 2 / fact 2 + x ^ 4 / fact 4 - x ^ 6 / fact 6 + x ^ 8 / fact 8 - x ^ 10 / fact 10 + x ^ 12 / fact 12)\<bar> \<le> \<bar>x\<bar> ^ 14 / fact 14"
proof -
  have s: "(\<Sum>m<14. f m) = f 0 + f 1 + f 2 + f 3 + f 4 + f 5 + f 6 + f 7 + f 8 + f 9 + f 10 + f 11 + f 12 + f 13" for f :: "nat \<Rightarrow> real"
    by (simp add: eval_nat_numeral)
  have c:
    "cos_coeff 0 = 1 / fact 0"
    "cos_coeff 1 = 0"
    "cos_coeff 2 = - (1 / fact 2)"
    "cos_coeff 3 = 0"
    "cos_coeff 4 = 1 / fact 4"
    "cos_coeff 5 = 0"
    "cos_coeff 6 = - (1 / fact 6)"
    "cos_coeff 7 = 0"
    "cos_coeff 8 = 1 / fact 8"
    "cos_coeff 9 = 0"
    "cos_coeff 10 = - (1 / fact 10)"
    "cos_coeff 11 = 0"
    "cos_coeff 12 = 1 / fact 12"
    "cos_coeff 13 = 0"
    by (simp_all add: cos_coeff_def)
  have "(\<Sum>m<14. cos_coeff m * x ^ m) = x ^ 0 / fact 0 - x ^ 2 / fact 2 + x ^ 4 / fact 4 - x ^ 6 / fact 6 + x ^ 8 / fact 8 - x ^ 10 / fact 10 + x ^ 12 / fact 12"
    unfolding s c by simp
  then show ?thesis using cos_taylor [of x 14] by simp
qed

lemma sin_terms17:
  fixes x :: real
  shows "\<bar>sin x - (x ^ 1 / fact 1 - x ^ 3 / fact 3 + x ^ 5 / fact 5 - x ^ 7 / fact 7 + x ^ 9 / fact 9 - x ^ 11 / fact 11 + x ^ 13 / fact 13 - x ^ 15 / fact 15)\<bar> \<le> \<bar>x\<bar> ^ 17 / fact 17"
proof -
  have s: "(\<Sum>m<17. f m) = f 0 + f 1 + f 2 + f 3 + f 4 + f 5 + f 6 + f 7 + f 8 + f 9 + f 10 + f 11 + f 12 + f 13 + f 14 + f 15 + f 16" for f :: "nat \<Rightarrow> real"
    by (simp add: eval_nat_numeral)
  have c:
    "sin_coeff 0 = 0"
    "sin_coeff 1 = 1 / fact 1"
    "sin_coeff 2 = 0"
    "sin_coeff 3 = - (1 / fact 3)"
    "sin_coeff 4 = 0"
    "sin_coeff 5 = 1 / fact 5"
    "sin_coeff 6 = 0"
    "sin_coeff 7 = - (1 / fact 7)"
    "sin_coeff 8 = 0"
    "sin_coeff 9 = 1 / fact 9"
    "sin_coeff 10 = 0"
    "sin_coeff 11 = - (1 / fact 11)"
    "sin_coeff 12 = 0"
    "sin_coeff 13 = 1 / fact 13"
    "sin_coeff 14 = 0"
    "sin_coeff 15 = - (1 / fact 15)"
    "sin_coeff 16 = 0"
    by (simp_all add: sin_coeff_def)
  have "(\<Sum>m<17. sin_coeff m * x ^ m) = x ^ 1 / fact 1 - x ^ 3 / fact 3 + x ^ 5 / fact 5 - x ^ 7 / fact 7 + x ^ 9 / fact 9 - x ^ 11 / fact 11 + x ^ 13 / fact 13 - x ^ 15 / fact 15"
    unfolding s c by simp
  then show ?thesis using sin_taylor [of x 17] by simp
qed

lemma sin_terms25:
  fixes x :: real
  shows "\<bar>sin x - (x ^ 1 / fact 1 - x ^ 3 / fact 3 + x ^ 5 / fact 5 - x ^ 7 / fact 7 + x ^ 9 / fact 9 - x ^ 11 / fact 11 + x ^ 13 / fact 13 - x ^ 15 / fact 15 + x ^ 17 / fact 17 - x ^ 19 / fact 19 + x ^ 21 / fact 21 - x ^ 23 / fact 23)\<bar> \<le> \<bar>x\<bar> ^ 25 / fact 25"
proof -
  have s: "(\<Sum>m<25. f m) = f 0 + f 1 + f 2 + f 3 + f 4 + f 5 + f 6 + f 7 + f 8 + f 9 + f 10 + f 11 + f 12 + f 13 + f 14 + f 15 + f 16 + f 17 + f 18 + f 19 + f 20 + f 21 + f 22 + f 23 + f 24" for f :: "nat \<Rightarrow> real"
    by (simp add: eval_nat_numeral)
  have c:
    "sin_coeff 0 = 0"
    "sin_coeff 1 = 1 / fact 1"
    "sin_coeff 2 = 0"
    "sin_coeff 3 = - (1 / fact 3)"
    "sin_coeff 4 = 0"
    "sin_coeff 5 = 1 / fact 5"
    "sin_coeff 6 = 0"
    "sin_coeff 7 = - (1 / fact 7)"
    "sin_coeff 8 = 0"
    "sin_coeff 9 = 1 / fact 9"
    "sin_coeff 10 = 0"
    "sin_coeff 11 = - (1 / fact 11)"
    "sin_coeff 12 = 0"
    "sin_coeff 13 = 1 / fact 13"
    "sin_coeff 14 = 0"
    "sin_coeff 15 = - (1 / fact 15)"
    "sin_coeff 16 = 0"
    "sin_coeff 17 = 1 / fact 17"
    "sin_coeff 18 = 0"
    "sin_coeff 19 = - (1 / fact 19)"
    "sin_coeff 20 = 0"
    "sin_coeff 21 = 1 / fact 21"
    "sin_coeff 22 = 0"
    "sin_coeff 23 = - (1 / fact 23)"
    "sin_coeff 24 = 0"
    by (simp_all add: sin_coeff_def)
  have "(\<Sum>m<25. sin_coeff m * x ^ m) = x ^ 1 / fact 1 - x ^ 3 / fact 3 + x ^ 5 / fact 5 - x ^ 7 / fact 7 + x ^ 9 / fact 9 - x ^ 11 / fact 11 + x ^ 13 / fact 13 - x ^ 15 / fact 15 + x ^ 17 / fact 17 - x ^ 19 / fact 19 + x ^ 21 / fact 21 - x ^ 23 / fact 23"
    unfolding s c by simp
  then show ?thesis using sin_taylor [of x 25] by simp
qed

lemma cos_terms26:
  fixes x :: real
  shows "\<bar>cos x - (x ^ 0 / fact 0 - x ^ 2 / fact 2 + x ^ 4 / fact 4 - x ^ 6 / fact 6 + x ^ 8 / fact 8 - x ^ 10 / fact 10 + x ^ 12 / fact 12 - x ^ 14 / fact 14 + x ^ 16 / fact 16 - x ^ 18 / fact 18 + x ^ 20 / fact 20 - x ^ 22 / fact 22 + x ^ 24 / fact 24)\<bar> \<le> \<bar>x\<bar> ^ 26 / fact 26"
proof -
  have s: "(\<Sum>m<26. f m) = f 0 + f 1 + f 2 + f 3 + f 4 + f 5 + f 6 + f 7 + f 8 + f 9 + f 10 + f 11 + f 12 + f 13 + f 14 + f 15 + f 16 + f 17 + f 18 + f 19 + f 20 + f 21 + f 22 + f 23 + f 24 + f 25" for f :: "nat \<Rightarrow> real"
    by (simp add: eval_nat_numeral)
  have c:
    "cos_coeff 0 = 1 / fact 0"
    "cos_coeff 1 = 0"
    "cos_coeff 2 = - (1 / fact 2)"
    "cos_coeff 3 = 0"
    "cos_coeff 4 = 1 / fact 4"
    "cos_coeff 5 = 0"
    "cos_coeff 6 = - (1 / fact 6)"
    "cos_coeff 7 = 0"
    "cos_coeff 8 = 1 / fact 8"
    "cos_coeff 9 = 0"
    "cos_coeff 10 = - (1 / fact 10)"
    "cos_coeff 11 = 0"
    "cos_coeff 12 = 1 / fact 12"
    "cos_coeff 13 = 0"
    "cos_coeff 14 = - (1 / fact 14)"
    "cos_coeff 15 = 0"
    "cos_coeff 16 = 1 / fact 16"
    "cos_coeff 17 = 0"
    "cos_coeff 18 = - (1 / fact 18)"
    "cos_coeff 19 = 0"
    "cos_coeff 20 = 1 / fact 20"
    "cos_coeff 21 = 0"
    "cos_coeff 22 = - (1 / fact 22)"
    "cos_coeff 23 = 0"
    "cos_coeff 24 = 1 / fact 24"
    "cos_coeff 25 = 0"
    by (simp_all add: cos_coeff_def)
  have "(\<Sum>m<26. cos_coeff m * x ^ m) = x ^ 0 / fact 0 - x ^ 2 / fact 2 + x ^ 4 / fact 4 - x ^ 6 / fact 6 + x ^ 8 / fact 8 - x ^ 10 / fact 10 + x ^ 12 / fact 12 - x ^ 14 / fact 14 + x ^ 16 / fact 16 - x ^ 18 / fact 18 + x ^ 20 / fact 20 - x ^ 22 / fact 22 + x ^ 24 / fact 24"
    unfolding s c by simp
  then show ?thesis using cos_taylor [of x 26] by simp
qed

section \<open>The doubles of two projections\<close>

lemma pi_between_doubles:
  "14148475504056879 / 4503599627370496 < pi" "pi < 14148475504056881 / 4503599627370496"
proof -
  define a :: real where "a = 4716158501352293 / 9007199254740992"
  define b :: real where "b = 14148475504056881 / 27021597764222976"
  have a: "0 \<le> a" "a \<le> 1" and b: "0 \<le> b" "b \<le> 1" by (simp_all add: a_def b_def)
  have aa: "\<bar>a\<bar> = a" and ab: "\<bar>b\<bar> = b" using a b by simp_all
  have a2: "a * a = 22242151009877506254709696357849 / 81129638414606681695789005144064" by (simp add: a_def)
  have la1: "4716158501352293 / 9007199254740992 \<le> a ^ 1 / fact 1" by (simp add: a_def)
  have ha1: "a ^ 1 / fact 1 \<le> 4716158501352293 / 9007199254740992" by (simp add: a_def)
  have la3: "23924596203935038560929979517 / 1000000000000000000000000000000 \<le> a ^ 3 / fact 3"
    by (rule term_lower [OF la1 _ a2]) simp_all
  have ha3: "a ^ 3 / fact 3 \<le> 11962298101967519280464989759 / 500000000000000000000000000000"
    by (rule term_upper [OF ha1 _ a2]) simp_all
  have la5: "20497074651791924234762133 / 62500000000000000000000000000 \<le> a ^ 5 / fact 5"
    by (rule term_lower [OF la3 _ a2]) simp_all
  have ha5: "a ^ 5 / fact 5 \<le> 327953194428670787756194129 / 1000000000000000000000000000000"
    by (rule term_upper [OF ha3 _ a2]) simp_all
  have la7: "535179942308948846233887 / 250000000000000000000000000000 \<le> a ^ 7 / fact 7"
    by (rule term_lower [OF la5 _ a2]) simp_all
  have ha7: "a ^ 7 / fact 7 \<le> 2140719769235795384935549 / 1000000000000000000000000000000"
    by (rule term_upper [OF ha5 _ a2]) simp_all
  have la9: "8151256657387576260011 / 1000000000000000000000000000000 \<le> a ^ 9 / fact 9"
    by (rule term_lower [OF la7 _ a2]) simp_all
  have ha9: "a ^ 9 / fact 9 \<le> 2037814164346894065003 / 250000000000000000000000000000"
    by (rule term_upper [OF ha7 _ a2]) simp_all
  have la11: "10157787699515320607 / 500000000000000000000000000000 \<le> a ^ 11 / fact 11"
    by (rule term_lower [OF la9 _ a2]) simp_all
  have ha11: "a ^ 11 / fact 11 \<le> 4063115079806128243 / 200000000000000000000000000000"
    by (rule term_upper [OF ha9 _ a2]) simp_all
  have la13: "7140551722540437 / 200000000000000000000000000000 \<le> a ^ 13 / fact 13"
    by (rule term_lower [OF la11 _ a2]) simp_all
  have ha13: "a ^ 13 / fact 13 \<le> 17851379306351093 / 500000000000000000000000000000"
    by (rule term_upper [OF ha11 _ a2]) simp_all
  have la15: "1456564581411 / 31250000000000000000000000000 \<le> a ^ 15 / fact 15"
    by (rule term_lower [OF la13 _ a2]) simp_all
  have ha15: "a ^ 15 / fact 15 \<le> 46610066605153 / 1000000000000000000000000000000"
    by (rule term_upper [OF ha13 _ a2]) simp_all
  have la17: "11744866179 / 250000000000000000000000000000 \<le> a ^ 17 / fact 17"
    by (rule term_lower [OF la15 _ a2]) simp_all
  have ha17: "a ^ 17 / fact 17 \<le> 46979464717 / 1000000000000000000000000000000"
    by (rule term_upper [OF ha15 _ a2]) simp_all
  have b2: "b * b = 200179359088897612886289283448161 / 730166745731460135262101046296576" by (simp add: b_def)
  have lb1: "14148475504056881 / 27021597764222976 \<le> b ^ 1 / fact 1" by (simp add: b_def)
  have hb1: "b ^ 1 / fact 1 \<le> 14148475504056881 / 27021597764222976" by (simp add: b_def)
  have lb3: "23924596203935048706728173991 / 1000000000000000000000000000000 \<le> b ^ 3 / fact 3"
    by (rule term_lower [OF lb1 _ b2]) simp_all
  have hb3: "b ^ 3 / fact 3 \<le> 2990574525491881088341021749 / 125000000000000000000000000000"
    by (rule term_upper [OF hb1 _ b2]) simp_all
  have lb5: "81988298607167754887552301 / 250000000000000000000000000000 \<le> b ^ 5 / fact 5"
    by (rule term_lower [OF lb3 _ b2]) simp_all
  have hb5: "b ^ 5 / fact 5 \<le> 65590638885734203910041841 / 200000000000000000000000000000"
    by (rule term_upper [OF hb3 _ b2]) simp_all
  have lb7: "267589971154474687898799 / 125000000000000000000000000000 \<le> b ^ 7 / fact 7"
    by (rule term_lower [OF lb5 _ b2]) simp_all
  have hb7: "b ^ 7 / fact 7 \<le> 2140719769235797503190393 / 1000000000000000000000000000000"
    by (rule term_upper [OF hb5 _ b2]) simp_all
  have lb9: "4075628328693793315109 / 500000000000000000000000000000 \<le> b ^ 9 / fact 9"
    by (rule term_lower [OF lb7 _ b2]) simp_all
  have hb9: "b ^ 9 / fact 9 \<le> 8151256657387586630219 / 1000000000000000000000000000000"
    by (rule term_upper [OF hb7 _ b2]) simp_all
  have lb11: "5078893849757668201 / 250000000000000000000000000000 \<le> b ^ 11 / fact 11"
    by (rule term_lower [OF lb9 _ b2]) simp_all
  have hb11: "b ^ 11 / fact 11 \<le> 4063115079806134561 / 200000000000000000000000000000"
    by (rule term_upper [OF hb9 _ b2]) simp_all
  have lb13: "35702758612702251 / 1000000000000000000000000000000 \<le> b ^ 13 / fact 13"
    by (rule term_lower [OF lb11 _ b2]) simp_all
  have hb13: "b ^ 13 / fact 13 \<le> 8925689653175563 / 250000000000000000000000000000"
    by (rule term_upper [OF hb11 _ b2]) simp_all
  have lb15: "46610066605153 / 1000000000000000000000000000000 \<le> b ^ 15 / fact 15"
    by (rule term_lower [OF lb13 _ b2]) simp_all
  have hb15: "b ^ 15 / fact 15 \<le> 23305033302577 / 500000000000000000000000000000"
    by (rule term_upper [OF hb13 _ b2]) simp_all
  have lb17: "11744866179 / 250000000000000000000000000000 \<le> b ^ 17 / fact 17"
    by (rule term_lower [OF lb15 _ b2]) simp_all
  have hb17: "b ^ 17 / fact 17 \<le> 46979464717 / 1000000000000000000000000000000"
    by (rule term_upper [OF hb15 _ b2]) simp_all
  have ta: "\<bar>sin a - (a ^ 1 / fact 1 - a ^ 3 / fact 3 + a ^ 5 / fact 5 - a ^ 7 / fact 7 + a ^ 9 / fact 9 - a ^ 11 / fact 11 + a ^ 13 / fact 13 - a ^ 15 / fact 15)\<bar> \<le> a ^ 17 / fact 17"
    using sin_terms17 [of a] unfolding aa .
  have tb: "\<bar>sin b - (b ^ 1 / fact 1 - b ^ 3 / fact 3 + b ^ 5 / fact 5 - b ^ 7 / fact 7 + b ^ 9 / fact 9 - b ^ 11 / fact 11 + b ^ 13 / fact 13 - b ^ 15 / fact 15)\<bar> \<le> b ^ 17 / fact 17"
    using sin_terms17 [of b] unfolding ab .
  have "sin a < 1 / 2" using ta la1 ha1 la3 ha3 la5 ha5 la7 ha7 la9 ha9 la11 ha11 la13 ha13 la15 ha15 la17 ha17 by linarith
  then have "sin a < sin (pi / 6)" by (simp add: sin_30)
  moreover have "a \<le> pi / 2" using a pi_ge_two by simp
  moreover have "- (pi / 2) \<le> a" using a by (meson pi_half_ge_zero order_trans neg_le_0_iff_le)
  ultimately have "a < pi / 6"
    by (subst (asm) sin_mono_less_eq) simp_all
  then show "14148475504056879 / 4503599627370496 < pi" by (simp add: a_def)
  have "1 / 2 < sin b" using tb lb1 hb1 lb3 hb3 lb5 hb5 lb7 hb7 lb9 hb9 lb11 hb11 lb13 hb13 lb15 hb15 lb17 hb17 by linarith
  then have "sin (pi / 6) < sin b" by (simp add: sin_30)
  moreover have "b \<le> pi / 2" using b pi_ge_two by simp
  moreover have "- (pi / 2) \<le> b" using b by (meson pi_half_ge_zero order_trans neg_le_0_iff_le)
  ultimately have "pi / 6 < b"
    by (subst (asm) sin_mono_less_eq) simp_all
  then show "pi < 14148475504056881 / 4503599627370496" by (simp add: b_def)
qed

lemma double_pi:
  "double_round pi = 884279719003555 / 281474976710656"
proof (rule double_round_value [where e = "1" and m = 7074237752028440 and lo = "2" and u = "1 / 2251799813685248"])
  show "2 \<le> \<bar>pi\<bar>" using pi_ge_two by simp
  show "\<bar>pi\<bar> < 2 * 2" using pi_less_4 by simp
  show "(of_int 7074237752028440 - 1 / 2) * (1 / 2251799813685248) < pi" using pi_between_doubles(1) by simp
  show "pi < (of_int 7074237752028440 + 1 / 2) * (1 / 2251799813685248)" using pi_between_doubles(2) by simp
qed (simp_all add: power_int_minus)

lemma double_deg_to_rad:
  "double_round (884279719003555 / 281474976710656 / 180) = 5030569068109113 / 288230376151711744"
  by (rule double_round_value [where e = "-6" and m = 5030569068109113 and lo = "1 / 64" and u = "1 / 288230376151711744"])
    (simp_all add: power_int_minus)

lemma double_one:
  "double_round (1) = 1"
  by (rule double_round_value [where e = "0" and m = 4503599627370496 and lo = "1" and u = "1 / 4503599627370496"])
    (simp_all add: power_int_minus)

lemma double_zero: "double_round (0 * x) = 0"
  by (simp add: double_round_def)

lemma double_lat_434:
  "double_round (86096944 / 1000000) = 6058533826814663 / 70368744177664"
  by (rule double_round_value [where e = "6" and m = 6058533826814663 and lo = "64" and u = "1 / 70368744177664"])
    (simp_all add: power_int_minus)

lemma double_lat1_434:
  "double_round (6058533826814663 / 70368744177664 * (5030569068109113 / 288230376151711744)) = 3383723619883769 / 2251799813685248"
  by (rule double_round_value [where e = "0" and m = 6767447239767538 and lo = "1" and u = "1 / 4503599627370496"])
    (simp_all add: power_int_minus)

lemma double_q_434:
  "double_round (434 / 6371) = 2454323953261711 / 36028797018963968"
  by (rule double_round_value [where e = "-4" and m = 4908647906523422 and lo = "1 / 16" and u = "1 / 72057594037927936"])
    (simp_all add: power_int_minus)

lemma double_sin_lat1_434:
  "double_round (sin (3383723619883769 / 2251799813685248)) = 8986308404150967 / 9007199254740992"
proof -
  define x :: real where "x = 3383723619883769 / 2251799813685248"
  have x2: "x * x = 11449585535759317239861069645361 / 5070602400912917605986812821504" by (simp add: x_def)
  have l1: "3383723619883769 / 2251799813685248 \<le> x ^ 1 / fact 1" by (simp add: x_def)
  have h1: "x ^ 1 / fact 1 \<le> 3383723619883769 / 2251799813685248" by (simp add: x_def)
  have l3: "56551491279951799552325884277 / 100000000000000000000000000000 \<le> x ^ 3 / fact 3"
    by (rule term_lower [OF l1 _ x2]) simp_all
  have h3: "x ^ 3 / fact 3 \<le> 565514912799517995523258842771 / 1000000000000000000000000000000"
    by (rule term_upper [OF h1 _ x2]) simp_all
  have l5: "7980944439510532403168491561 / 125000000000000000000000000000 \<le> x ^ 5 / fact 5"
    by (rule term_lower [OF l3 _ x2]) simp_all
  have h5: "x ^ 5 / fact 5 \<le> 63847555516084259225347932489 / 1000000000000000000000000000000"
    by (rule term_upper [OF h3 _ x2]) simp_all
  have l7: "1716307880328017123316912001 / 500000000000000000000000000000 \<le> x ^ 7 / fact 7"
    by (rule term_lower [OF l5 _ x2]) simp_all
  have h7: "x ^ 7 / fact 7 \<le> 3432615760656034246633824003 / 1000000000000000000000000000000"
    by (rule term_upper [OF h5 _ x2]) simp_all
  have l9: "107652198604731444649039681 / 1000000000000000000000000000000 \<le> x ^ 9 / fact 9"
    by (rule term_lower [OF l7 _ x2]) simp_all
  have h9: "x ^ 9 / fact 9 \<le> 53826099302365722324519841 / 500000000000000000000000000000"
    by (rule term_upper [OF h7 _ x2]) simp_all
  have l11: "220983794712888642008031 / 100000000000000000000000000000 \<le> x ^ 11 / fact 11"
    by (rule term_lower [OF l9 _ x2]) simp_all
  have h11: "x ^ 11 / fact 11 \<le> 2209837947128886420080311 / 1000000000000000000000000000000"
    by (rule term_upper [OF h9 _ x2]) simp_all
  have l13: "31986449557298245735973 / 1000000000000000000000000000000 \<le> x ^ 13 / fact 13"
    by (rule term_lower [OF l11 _ x2]) simp_all
  have h13: "x ^ 13 / fact 13 \<le> 15993224778649122867987 / 500000000000000000000000000000"
    by (rule term_upper [OF h11 _ x2]) simp_all
  have l15: "85983864213995986461 / 250000000000000000000000000000 \<le> x ^ 15 / fact 15"
    by (rule term_lower [OF l13 _ x2]) simp_all
  have h15: "x ^ 15 / fact 15 \<le> 68787091371196789169 / 200000000000000000000000000000"
    by (rule term_upper [OF h13 _ x2]) simp_all
  have l17: "2855211304224148641 / 1000000000000000000000000000000 \<le> x ^ 17 / fact 17"
    by (rule term_lower [OF l15 _ x2]) simp_all
  have h17: "x ^ 17 / fact 17 \<le> 1427605652112074321 / 500000000000000000000000000000"
    by (rule term_upper [OF h15 _ x2]) simp_all
  have l19: "9425672824660551 / 500000000000000000000000000000 \<le> x ^ 19 / fact 19"
    by (rule term_lower [OF l17 _ x2]) simp_all
  have h19: "x ^ 19 / fact 19 \<le> 18851345649321103 / 1000000000000000000000000000000"
    by (rule term_upper [OF h17 _ x2]) simp_all
  have l21: "50674944140291 / 500000000000000000000000000000 \<le> x ^ 21 / fact 21"
    by (rule term_lower [OF l19 _ x2]) simp_all
  have h21: "x ^ 21 / fact 21 \<le> 101349888280583 / 1000000000000000000000000000000"
    by (rule term_upper [OF h19 _ x2]) simp_all
  have l23: "452275399211 / 1000000000000000000000000000000 \<le> x ^ 23 / fact 23"
    by (rule term_lower [OF l21 _ x2]) simp_all
  have h23: "x ^ 23 / fact 23 \<le> 113068849803 / 250000000000000000000000000000"
    by (rule term_upper [OF h21 _ x2]) simp_all
  have l25: "1702087661 / 1000000000000000000000000000000 \<le> x ^ 25 / fact 25"
    by (rule term_lower [OF l23 _ x2]) simp_all
  have h25: "x ^ 25 / fact 25 \<le> 851043831 / 500000000000000000000000000000"
    by (rule term_upper [OF h23 _ x2]) simp_all
  have ax: "\<bar>x\<bar> = x" by (simp add: x_def)
  have t: "\<bar>sin x - (x ^ 1 / fact 1 - x ^ 3 / fact 3 + x ^ 5 / fact 5 - x ^ 7 / fact 7 + x ^ 9 / fact 9 - x ^ 11 / fact 11 + x ^ 13 / fact 13 - x ^ 15 / fact 15 + x ^ 17 / fact 17 - x ^ 19 / fact 19 + x ^ 21 / fact 21 - x ^ 23 / fact 23)\<bar> \<le> x ^ 25 / fact 25"
    using sin_terms25 [of x] unfolding ax .
  have b: "17972616808301933 / 18014398509481984 < sin x" "sin x < 17972616808301935 / 18014398509481984"
    using t l1 h1 l3 h3 l5 h5 l7 h7 l9 h9 l11 h11 l13 h13 l15 h15 l17 h17 l19 h19 l21 h21 l23 h23 l25 h25 by linarith+
  have "double_round (sin x) = 8986308404150967 / 9007199254740992"
  proof (rule double_round_value [where e = "-1" and m = 8986308404150967 and lo = "1 / 2" and u = "1 / 9007199254740992"])
    show "1 / 2 \<le> \<bar>sin x\<bar>" using b by linarith
    show "\<bar>sin x\<bar> < 2 * (1 / 2)" using b by linarith
    show "(of_int 8986308404150967 - 1 / 2) * (1 / 9007199254740992) < sin x" using b(1) by simp
    show "sin x < (of_int 8986308404150967 + 1 / 2) * (1 / 9007199254740992)" using b(2) by simp
  qed (simp_all add: power_int_minus)
  then show ?thesis by (simp add: x_def)
qed

lemma double_cos_lat1_434:
  "double_round (cos (3383723619883769 / 2251799813685248)) = 1226213162696253 / 18014398509481984"
proof -
  define x :: real where "x = 3383723619883769 / 2251799813685248"
  have x2: "x * x = 11449585535759317239861069645361 / 5070602400912917605986812821504" by (simp add: x_def)
  have l0: "1 \<le> x ^ 0 / fact 0" by (simp add: x_def)
  have h0: "x ^ 0 / fact 0 \<le> 1" by (simp add: x_def)
  have l2: "1129016301268062303811635706147 / 1000000000000000000000000000000 \<le> x ^ 2 / fact 2"
    by (rule term_lower [OF l0 _ x2]) simp_all
  have h2: "x ^ 2 / fact 2 \<le> 282254075317015575952908926537 / 250000000000000000000000000000"
    by (rule term_upper [OF h0 _ x2]) simp_all
  have l4: "8497852056860106816305064601 / 40000000000000000000000000000 \<le> x ^ 4 / fact 4"
    by (rule term_lower [OF l2 _ x2]) simp_all
  have h4: "x ^ 4 / fact 4 \<le> 106223150710751335203813307513 / 500000000000000000000000000000"
    by (rule term_upper [OF h2 _ x2]) simp_all
  have l6: "159903558299323221200366631 / 10000000000000000000000000000 \<le> x ^ 6 / fact 6"
    by (rule term_lower [OF l4 _ x2]) simp_all
  have h6: "x ^ 6 / fact 6 \<le> 15990355829932322120036663101 / 1000000000000000000000000000000"
    by (rule term_upper [OF h4 _ x2]) simp_all
  have l8: "32238164991197119683649553 / 50000000000000000000000000000 \<le> x ^ 8 / fact 8"
    by (rule term_lower [OF l6 _ x2]) simp_all
  have h8: "x ^ 8 / fact 8 \<le> 644763299823942393672991061 / 1000000000000000000000000000000"
    by (rule term_upper [OF h6 _ x2]) simp_all
  have l10: "1011039272167525177924673 / 62500000000000000000000000000 \<le> x ^ 10 / fact 10"
    by (rule term_lower [OF l8 _ x2]) simp_all
  have h10: "x ^ 10 / fact 10 \<le> 16176628354680402846794769 / 1000000000000000000000000000000"
    by (rule term_upper [OF h8 _ x2]) simp_all
  have l12: "5534447609693735976951 / 20000000000000000000000000000 \<le> x ^ 12 / fact 12"
    by (rule term_lower [OF l10 _ x2]) simp_all
  have h12: "x ^ 12 / fact 12 \<le> 276722380484686798847551 / 1000000000000000000000000000000"
    by (rule term_upper [OF h10 _ x2]) simp_all
  have l14: "1716615815895134701139 / 500000000000000000000000000000 \<le> x ^ 14 / fact 14"
    by (rule term_lower [OF l12 _ x2]) simp_all
  have h14: "x ^ 14 / fact 14 \<le> 3433231631790269402279 / 1000000000000000000000000000000"
    by (rule term_upper [OF h12 _ x2]) simp_all
  have l16: "32301453986003032909 / 1000000000000000000000000000000 \<le> x ^ 16 / fact 16"
    by (rule term_lower [OF l14 _ x2]) simp_all
  have h16: "x ^ 16 / fact 16 \<le> 3230145398600303291 / 100000000000000000000000000000"
    by (rule term_upper [OF h14 _ x2]) simp_all
  have l18: "238358615064429099 / 1000000000000000000000000000000 \<le> x ^ 18 / fact 18"
    by (rule term_lower [OF l16 _ x2]) simp_all
  have h18: "x ^ 18 / fact 18 \<le> 2383586150644291 / 10000000000000000000000000000"
    by (rule term_upper [OF h16 _ x2]) simp_all
  have l20: "1416372431344313 / 1000000000000000000000000000000 \<le> x ^ 20 / fact 20"
    by (rule term_lower [OF l18 _ x2]) simp_all
  have h20: "x ^ 20 / fact 20 \<le> 708186215672157 / 500000000000000000000000000000"
    by (rule term_upper [OF h18 _ x2]) simp_all
  have l22: "6922543565603 / 1000000000000000000000000000000 \<le> x ^ 22 / fact 22"
    by (rule term_lower [OF l20 _ x2]) simp_all
  have h22: "x ^ 22 / fact 22 \<le> 1730635891401 / 250000000000000000000000000000"
    by (rule term_upper [OF h20 _ x2]) simp_all
  have l24: "5663525023 / 200000000000000000000000000000 \<le> x ^ 24 / fact 24"
    by (rule term_lower [OF l22 _ x2]) simp_all
  have h24: "x ^ 24 / fact 24 \<le> 7079406279 / 250000000000000000000000000000"
    by (rule term_upper [OF h22 _ x2]) simp_all
  have l26: "98372493 / 1000000000000000000000000000000 \<le> x ^ 26 / fact 26"
    by (rule term_lower [OF l24 _ x2]) simp_all
  have h26: "x ^ 26 / fact 26 \<le> 49186247 / 500000000000000000000000000000"
    by (rule term_upper [OF h24 _ x2]) simp_all
  have ax: "\<bar>x\<bar> = x" by (simp add: x_def)
  have t: "\<bar>cos x - (x ^ 0 / fact 0 - x ^ 2 / fact 2 + x ^ 4 / fact 4 - x ^ 6 / fact 6 + x ^ 8 / fact 8 - x ^ 10 / fact 10 + x ^ 12 / fact 12 - x ^ 14 / fact 14 + x ^ 16 / fact 16 - x ^ 18 / fact 18 + x ^ 20 / fact 20 - x ^ 22 / fact 22 + x ^ 24 / fact 24)\<bar> \<le> x ^ 26 / fact 26"
    using cos_terms26 [of x] unfolding ax .
  have b: "9809705301570023 / 144115188075855872 < cos x" "cos x < 9809705301570025 / 144115188075855872"
    using t l0 h0 l2 h2 l4 h4 l6 h6 l8 h8 l10 h10 l12 h12 l14 h14 l16 h16 l18 h18 l20 h20 l22 h22 l24 h24 l26 h26 by linarith+
  have "double_round (cos x) = 1226213162696253 / 18014398509481984"
  proof (rule double_round_value [where e = "-4" and m = 4904852650785012 and lo = "1 / 16" and u = "1 / 72057594037927936"])
    show "1 / 16 \<le> \<bar>cos x\<bar>" using b by linarith
    show "\<bar>cos x\<bar> < 2 * (1 / 16)" using b by linarith
    show "(of_int 4904852650785012 - 1 / 2) * (1 / 72057594037927936) < cos x" using b(1) by simp
    show "cos x < (of_int 4904852650785012 + 1 / 2) * (1 / 72057594037927936)" using b(2) by simp
  qed (simp_all add: power_int_minus)
  then show ?thesis by (simp add: x_def)
qed

lemma double_sin_q_434:
  "double_round (sin (2454323953261711 / 36028797018963968)) = 613106545225725 / 9007199254740992"
proof -
  define x :: real where "x = 2454323953261711 / 36028797018963968"
  have x2: "x * x = 6023706067554193361195658647521 / 1298074214633706907132624082305024" by (simp add: x_def)
  have l1: "2454323953261711 / 36028797018963968 \<le> x ^ 1 / fact 1" by (simp add: x_def)
  have h1: "x ^ 1 / fact 1 \<le> 2454323953261711 / 36028797018963968" by (simp add: x_def)
  have l3: "6585748413374837263025263 / 125000000000000000000000000000 \<le> x ^ 3 / fact 3"
    by (rule term_lower [OF l1 _ x2]) simp_all
  have h3: "x ^ 3 / fact 3 \<le> 10537197461399739620840421 / 200000000000000000000000000000"
    by (rule term_upper [OF h1 _ x2]) simp_all
  have l5: "12224451338701228092499 / 1000000000000000000000000000000 \<le> x ^ 5 / fact 5"
    by (rule term_lower [OF l3 _ x2]) simp_all
  have h5: "x ^ 5 / fact 5 \<le> 4889780535480491237 / 400000000000000000000000000"
    by (rule term_upper [OF h3 _ x2]) simp_all
  have l7: "675327350603594871 / 500000000000000000000000000000 \<le> x ^ 7 / fact 7"
    by (rule term_lower [OF l5 _ x2]) simp_all
  have h7: "x ^ 7 / fact 7 \<le> 1350654701207189743 / 1000000000000000000000000000000"
    by (rule term_upper [OF h5 _ x2]) simp_all
  have l9: "21762866384617 / 250000000000000000000000000000 \<le> x ^ 9 / fact 9"
    by (rule term_lower [OF l7 _ x2]) simp_all
  have h9: "x ^ 9 / fact 9 \<le> 87051465538469 / 1000000000000000000000000000000"
    by (rule term_upper [OF h7 _ x2]) simp_all
  have l11: "1836190157 / 500000000000000000000000000000 \<le> x ^ 11 / fact 11"
    by (rule term_lower [OF l9 _ x2]) simp_all
  have h11: "x ^ 11 / fact 11 \<le> 734476063 / 200000000000000000000000000000"
    by (rule term_upper [OF h9 _ x2]) simp_all
  have l13: "109241 / 1000000000000000000000000000000 \<le> x ^ 13 / fact 13"
    by (rule term_lower [OF l11 _ x2]) simp_all
  have h13: "x ^ 13 / fact 13 \<le> 54621 / 500000000000000000000000000000"
    by (rule term_upper [OF h11 _ x2]) simp_all
  have ax: "\<bar>x\<bar> = x" by (simp add: x_def)
  have t: "\<bar>sin x - (x ^ 1 / fact 1 - x ^ 3 / fact 3 + x ^ 5 / fact 5 - x ^ 7 / fact 7 + x ^ 9 / fact 9 - x ^ 11 / fact 11)\<bar> \<le> x ^ 13 / fact 13"
    using sin_terms13 [of x] unfolding ax .
  have b: "9809704723611599 / 144115188075855872 < sin x" "sin x < 9809704723611601 / 144115188075855872"
    using t l1 h1 l3 h3 l5 h5 l7 h7 l9 h9 l11 h11 l13 h13 by linarith+
  have "double_round (sin x) = 613106545225725 / 9007199254740992"
  proof (rule double_round_value [where e = "-4" and m = 4904852361805800 and lo = "1 / 16" and u = "1 / 72057594037927936"])
    show "1 / 16 \<le> \<bar>sin x\<bar>" using b by linarith
    show "\<bar>sin x\<bar> < 2 * (1 / 16)" using b by linarith
    show "(of_int 4904852361805800 - 1 / 2) * (1 / 72057594037927936) < sin x" using b(1) by simp
    show "sin x < (of_int 4904852361805800 + 1 / 2) * (1 / 72057594037927936)" using b(2) by simp
  qed (simp_all add: power_int_minus)
  then show ?thesis by (simp add: x_def)
qed

lemma double_cos_q_434:
  "double_round (cos (2454323953261711 / 36028797018963968)) = 8986308406615481 / 9007199254740992"
proof -
  define x :: real where "x = 2454323953261711 / 36028797018963968"
  have x2: "x * x = 6023706067554193361195658647521 / 1298074214633706907132624082305024" by (simp add: x_def)
  have l0: "1 \<le> x ^ 0 / fact 0" by (simp add: x_def)
  have h0: "x ^ 0 / fact 0 \<le> 1" by (simp add: x_def)
  have l2: "1160123589168970279472054499 / 500000000000000000000000000000 \<le> x ^ 2 / fact 2"
    by (rule term_lower [OF l0 _ x2]) simp_all
  have h2: "x ^ 2 / fact 2 \<le> 2320247178337940558944108999 / 1000000000000000000000000000000"
    by (rule term_upper [OF h0 _ x2]) simp_all
  have l4: "897257828097529156759637 / 1000000000000000000000000000000 \<le> x ^ 4 / fact 4"
    by (rule term_lower [OF l2 _ x2]) simp_all
  have h4: "x ^ 4 / fact 4 \<le> 448628914048764578379819 / 500000000000000000000000000000"
    by (rule term_upper [OF h2 _ x2]) simp_all
  have l6: "27758132585132279289 / 200000000000000000000000000000 \<le> x ^ 6 / fact 6"
    by (rule term_lower [OF l4 _ x2]) simp_all
  have h6: "x ^ 6 / fact 6 \<le> 69395331462830698223 / 500000000000000000000000000000"
    by (rule term_upper [OF h4 _ x2]) simp_all
  have l8: "2300204600235129 / 200000000000000000000000000000 \<le> x ^ 8 / fact 8"
    by (rule term_lower [OF l6 _ x2]) simp_all
  have h8: "x ^ 8 / fact 8 \<le> 5750511500587823 / 500000000000000000000000000000"
    by (rule term_upper [OF h6 _ x2]) simp_all
  have l10: "593004803699 / 1000000000000000000000000000000 \<le> x ^ 10 / fact 10"
    by (rule term_lower [OF l8 _ x2]) simp_all
  have h10: "x ^ 10 / fact 10 \<le> 5930048037 / 10000000000000000000000000000"
    by (rule term_upper [OF h8 _ x2]) simp_all
  have l12: "10423619 / 500000000000000000000000000000 \<le> x ^ 12 / fact 12"
    by (rule term_lower [OF l10 _ x2]) simp_all
  have h12: "x ^ 12 / fact 12 \<le> 20847239 / 1000000000000000000000000000000"
    by (rule term_upper [OF h10 _ x2]) simp_all
  have l14: "531 / 1000000000000000000000000000000 \<le> x ^ 14 / fact 14"
    by (rule term_lower [OF l12 _ x2]) simp_all
  have h14: "x ^ 14 / fact 14 \<le> 133 / 250000000000000000000000000000"
    by (rule term_upper [OF h12 _ x2]) simp_all
  have ax: "\<bar>x\<bar> = x" by (simp add: x_def)
  have t: "\<bar>cos x - (x ^ 0 / fact 0 - x ^ 2 / fact 2 + x ^ 4 / fact 4 - x ^ 6 / fact 6 + x ^ 8 / fact 8 - x ^ 10 / fact 10 + x ^ 12 / fact 12)\<bar> \<le> x ^ 14 / fact 14"
    using cos_terms14 [of x] unfolding ax .
  have b: "17972616813230961 / 18014398509481984 < cos x" "cos x < 17972616813230963 / 18014398509481984"
    using t l0 h0 l2 h2 l4 h4 l6 h6 l8 h8 l10 h10 l12 h12 l14 h14 by linarith+
  have "double_round (cos x) = 8986308406615481 / 9007199254740992"
  proof (rule double_round_value [where e = "-1" and m = 8986308406615481 and lo = "1 / 2" and u = "1 / 9007199254740992"])
    show "1 / 2 \<le> \<bar>cos x\<bar>" using b by linarith
    show "\<bar>cos x\<bar> < 2 * (1 / 2)" using b by linarith
    show "(of_int 8986308406615481 - 1 / 2) * (1 / 9007199254740992) < cos x" using b(1) by simp
    show "cos x < (of_int 8986308406615481 + 1 / 2) * (1 / 9007199254740992)" using b(2) by simp
  qed (simp_all add: power_int_minus)
  then show ?thesis by (simp add: x_def)
qed

lemma double_p1_434:
  "double_round (8986308404150967 / 9007199254740992 * (8986308406615481 / 9007199254740992)) = 8965466009221011 / 9007199254740992"
  by (rule double_round_value [where e = "-1" and m = 8965466009221011 and lo = "1 / 2" and u = "1 / 9007199254740992"])
    (simp_all add: power_int_minus)

lemma double_p2_434:
  "double_round (1226213162696253 / 18014398509481984 * (613106545225725 / 9007199254740992)) = 5341855426557697 / 1152921504606846976"
  by (rule double_round_value [where e = "-8" and m = 5341855426557697 and lo = "1 / 256" and u = "1 / 1152921504606846976"])
    (simp_all add: power_int_minus)

lemma double_p3_434:
  "double_round (5341855426557697 / 1152921504606846976 * 1) = 5341855426557697 / 1152921504606846976"
  by (rule double_round_value [where e = "-8" and m = 5341855426557697 and lo = "1 / 256" and u = "1 / 1152921504606846976"])
    (simp_all add: power_int_minus)

lemma double_arg_434:
  "double_round (8965466009221011 / 9007199254740992 + 5341855426557697 / 1152921504606846976) = 4503599627370497 / 4503599627370496"
  by (rule double_round_value [where e = "0" and m = 4503599627370497 and lo = "1" and u = "1 / 4503599627370496"])
    (simp_all add: power_int_minus)

lemma raises_434:
  "calc_endpoint_haversine_double (double_round (86096944 / 1000000)) 0 0 434 = Inl ValueError"
proof -
  have "py_asin (4503599627370497 / 4503599627370496) = Inl ValueError" by (simp add: py_asin_def)
  then show ?thesis
    unfolding calc_endpoint_haversine_double_def calc_endpoint_haversine_rounded_def Let_def
      double_pi double_deg_to_rad double_lat_434 double_lat1_434 double_q_434 double_zero
      double_sin_lat1_434 double_cos_lat1_434 double_sin_q_434 double_cos_q_434
      cos_zero double_one double_p1_434 double_p2_434 double_p3_434 double_arg_434
    by simp
qed

lemma double_lat_113:
  "double_round (88983767 / 1000000) = 1565418983996965 / 17592186044416"
  by (rule double_round_value [where e = "6" and m = 6261675935987860 and lo = "64" and u = "1 / 70368744177664"])
    (simp_all add: power_int_minus)

lemma double_lat1_113:
  "double_round (1565418983996965 / 17592186044416 * (5030569068109113 / 288230376151711744)) = 3497179576828347 / 2251799813685248"
  by (rule double_round_value [where e = "0" and m = 6994359153656694 and lo = "1" and u = "1 / 4503599627370496"])
    (simp_all add: power_int_minus)

lemma double_q_113:
  "double_round (113 / 6371) = 2556116190954593 / 144115188075855872"
  by (rule double_round_value [where e = "-6" and m = 5112232381909186 and lo = "1 / 64" and u = "1 / 288230376151711744"])
    (simp_all add: power_int_minus)

lemma double_sin_lat1_113:
  "double_round (sin (3497179576828347 / 2251799813685248)) = 2251445629047603 / 2251799813685248"
proof -
  define x :: real where "x = 3497179576828347 / 2251799813685248"
  have x2: "x * x = 12230264992585296197167902752409 / 5070602400912917605986812821504" by (simp add: x_def)
  have l1: "3497179576828347 / 2251799813685248 \<le> x ^ 1 / fact 1" by (simp add: x_def)
  have h1: "x ^ 1 / fact 1 \<le> 3497179576828347 / 2251799813685248" by (simp add: x_def)
  have l3: "624328576162330379931733920563 / 1000000000000000000000000000000 \<le> x ^ 3 / fact 3"
    by (rule term_lower [OF l1 _ x2]) simp_all
  have h3: "x ^ 3 / fact 3 \<le> 156082144040582594982933480141 / 250000000000000000000000000000"
    by (rule term_upper [OF h1 _ x2]) simp_all
  have l5: "75293853916982629114836101233 / 1000000000000000000000000000000 \<le> x ^ 5 / fact 5"
    by (rule term_lower [OF l3 _ x2]) simp_all
  have h5: "x ^ 5 / fact 5 \<le> 37646926958491314557418050617 / 500000000000000000000000000000"
    by (rule term_upper [OF h3 _ x2]) simp_all
  have l7: "4324008568967355739104534207 / 1000000000000000000000000000000 \<le> x ^ 7 / fact 7"
    by (rule term_lower [OF l5 _ x2]) simp_all
  have h7: "x ^ 7 / fact 7 \<le> 67562633890114933423508347 / 15625000000000000000000000000"
    by (rule term_upper [OF h5 _ x2]) simp_all
  have l9: "5794158218005707431697687 / 40000000000000000000000000000 \<le> x ^ 9 / fact 9"
    by (rule term_lower [OF l7 _ x2]) simp_all
  have h9: "x ^ 9 / fact 9 \<le> 2263343053908479465506909 / 15625000000000000000000000000"
    by (rule term_upper [OF h7 _ x2]) simp_all
  have l11: "1588122457743723158605783 / 500000000000000000000000000000 \<le> x ^ 11 / fact 11"
    by (rule term_lower [OF l9 _ x2]) simp_all
  have h11: "x ^ 11 / fact 11 \<le> 3176244915487446317211567 / 1000000000000000000000000000000"
    by (rule term_upper [OF h9 _ x2]) simp_all
  have l13: "982190409979417370483 / 20000000000000000000000000000 \<le> x ^ 13 / fact 13"
    by (rule term_lower [OF l11 _ x2]) simp_all
  have h13: "x ^ 13 / fact 13 \<le> 49109520498970868524151 / 1000000000000000000000000000000"
    by (rule term_upper [OF h11 _ x2]) simp_all
  have l15: "564056629879938246739 / 1000000000000000000000000000000 \<le> x ^ 15 / fact 15"
    by (rule term_lower [OF l13 _ x2]) simp_all
  have h15: "x ^ 15 / fact 15 \<le> 28202831493996912337 / 50000000000000000000000000000"
    by (rule term_upper [OF h13 _ x2]) simp_all
  have l17: "2500921832189296053 / 500000000000000000000000000000 \<le> x ^ 17 / fact 17"
    by (rule term_lower [OF l15 _ x2]) simp_all
  have h17: "x ^ 17 / fact 17 \<le> 5001843664378592107 / 1000000000000000000000000000000"
    by (rule term_upper [OF h15 _ x2]) simp_all
  have l19: "7055215964754729 / 200000000000000000000000000000 \<le> x ^ 19 / fact 19"
    by (rule term_lower [OF l17 _ x2]) simp_all
  have h19: "x ^ 19 / fact 19 \<le> 17638039911886823 / 500000000000000000000000000000"
    by (rule term_upper [OF h17 _ x2]) simp_all
  have l21: "25323127901939 / 125000000000000000000000000000 \<le> x ^ 21 / fact 21"
    by (rule term_lower [OF l19 _ x2]) simp_all
  have h21: "x ^ 21 / fact 21 \<le> 202585023215513 / 1000000000000000000000000000000"
    by (rule term_upper [OF h19 _ x2]) simp_all
  have l23: "482839878833 / 500000000000000000000000000000 \<le> x ^ 23 / fact 23"
    by (rule term_lower [OF l21 _ x2]) simp_all
  have h23: "x ^ 23 / fact 23 \<le> 965679757667 / 1000000000000000000000000000000"
    by (rule term_upper [OF h21 _ x2]) simp_all
  have l25: "1941011869 / 500000000000000000000000000000 \<le> x ^ 25 / fact 25"
    by (rule term_lower [OF l23 _ x2]) simp_all
  have h25: "x ^ 25 / fact 25 \<le> 3882023739 / 1000000000000000000000000000000"
    by (rule term_upper [OF h23 _ x2]) simp_all
  have ax: "\<bar>x\<bar> = x" by (simp add: x_def)
  have t: "\<bar>sin x - (x ^ 1 / fact 1 - x ^ 3 / fact 3 + x ^ 5 / fact 5 - x ^ 7 / fact 7 + x ^ 9 / fact 9 - x ^ 11 / fact 11 + x ^ 13 / fact 13 - x ^ 15 / fact 15 + x ^ 17 / fact 17 - x ^ 19 / fact 19 + x ^ 21 / fact 21 - x ^ 23 / fact 23)\<bar> \<le> x ^ 25 / fact 25"
    using sin_terms25 [of x] unfolding ax .
  have b: "18011565032380823 / 18014398509481984 < sin x" "sin x < 18011565032380825 / 18014398509481984"
    using t l1 h1 l3 h3 l5 h5 l7 h7 l9 h9 l11 h11 l13 h13 l15 h15 l17 h17 l19 h19 l21 h21 l23 h23 l25 h25 by linarith+
  have "double_round (sin x) = 2251445629047603 / 2251799813685248"
  proof (rule double_round_value [where e = "-1" and m = 9005782516190412 and lo = "1 / 2" and u = "1 / 9007199254740992"])
    show "1 / 2 \<le> \<bar>sin x\<bar>" using b by linarith
    show "\<bar>sin x\<bar> < 2 * (1 / 2)" using b by linarith
    show "(of_int 9005782516190412 - 1 / 2) * (1 / 9007199254740992) < sin x" using b(1) by simp
    show "sin x < (of_int 9005782516190412 + 1 / 2) * (1 / 9007199254740992)" using b(2) by simp
  qed (simp_all add: power_int_minus)
  then show ?thesis by (simp add: x_def)
qed

lemma double_cos_lat1_113:
  "double_round (cos (3497179576828347 / 2251799813685248)) = 5111962259469401 / 288230376151711744"
proof -
  define x :: real where "x = 3497179576828347 / 2251799813685248"
  have x2: "x * x = 12230264992585296197167902752409 / 5070602400912917605986812821504" by (simp add: x_def)
  have l0: "1 \<le> x ^ 0 / fact 0" by (simp add: x_def)
  have h0: "x ^ 0 / fact 0 \<le> 1" by (simp add: x_def)
  have l2: "18843706861608765614191538261 / 15625000000000000000000000000 \<le> x ^ 2 / fact 2"
    by (rule term_lower [OF l0 _ x2]) simp_all
  have h2: "x ^ 2 / fact 2 \<le> 241199447828592199861651689741 / 200000000000000000000000000000"
    by (rule term_upper [OF h0 _ x2]) simp_all
  have l4: "242404890136740710320219840899 / 1000000000000000000000000000000 \<le> x ^ 4 / fact 4"
    by (rule term_lower [OF l2 _ x2]) simp_all
  have h4: "x ^ 4 / fact 4 \<le> 2424048901367407103202198409 / 10000000000000000000000000000"
    by (rule term_upper [OF h2 _ x2]) simp_all
  have l6: "4872327137661034573937349799 / 250000000000000000000000000000 \<le> x ^ 6 / fact 6"
    by (rule term_lower [OF l4 _ x2]) simp_all
  have h6: "x ^ 6 / fact 6 \<le> 19489308550644138295749399197 / 1000000000000000000000000000000"
    by (rule term_upper [OF h4 _ x2]) simp_all
  have l8: "839430439460076195801250463 / 1000000000000000000000000000000 \<le> x ^ 8 / fact 8"
    by (rule term_lower [OF l6 _ x2]) simp_all
  have h8: "x ^ 8 / fact 8 \<le> 26232201233127381118789077 / 31250000000000000000000000000"
    by (rule term_upper [OF h6 _ x2]) simp_all
  have l10: "22496684276475874607575877 / 1000000000000000000000000000000 \<le> x ^ 10 / fact 10"
    by (rule term_lower [OF l8 _ x2]) simp_all
  have h10: "x ^ 10 / fact 10 \<le> 11248342138237937303787939 / 500000000000000000000000000000"
    by (rule term_upper [OF h8 _ x2]) simp_all
  have l12: "205537417631066408273743 / 500000000000000000000000000000 \<le> x ^ 12 / fact 12"
    by (rule term_lower [OF l10 _ x2]) simp_all
  have h12: "x ^ 12 / fact 12 \<le> 411074835262132816547487 / 1000000000000000000000000000000"
    by (rule term_upper [OF h10 _ x2]) simp_all
  have l14: "5447858422058018541177 / 1000000000000000000000000000000 \<le> x ^ 14 / fact 14"
    by (rule term_lower [OF l12 _ x2]) simp_all
  have h14: "x ^ 14 / fact 14 \<le> 2723929211029009270589 / 500000000000000000000000000000"
    by (rule term_upper [OF h12 _ x2]) simp_all
  have l16: "54750851802030819521 / 1000000000000000000000000000000 \<le> x ^ 16 / fact 16"
    by (rule term_lower [OF l14 _ x2]) simp_all
  have h16: "x ^ 16 / fact 16 \<le> 27375425901015409761 / 500000000000000000000000000000"
    by (rule term_upper [OF h14 _ x2]) simp_all
  have l18: "215782274882269867 / 500000000000000000000000000000 \<le> x ^ 18 / fact 18"
    by (rule term_lower [OF l16 _ x2]) simp_all
  have h18: "x ^ 18 / fact 18 \<le> 86312909952907947 / 200000000000000000000000000000"
    by (rule term_upper [OF h16 _ x2]) simp_all
  have l20: "2739292923831631 / 1000000000000000000000000000000 \<le> x ^ 20 / fact 20"
    by (rule term_lower [OF l18 _ x2]) simp_all
  have h20: "x ^ 20 / fact 20 \<le> 171205807739477 / 62500000000000000000000000000"
    by (rule term_upper [OF h18 _ x2]) simp_all
  have l22: "1430121083699 / 100000000000000000000000000000 \<le> x ^ 22 / fact 22"
    by (rule term_lower [OF l20 _ x2]) simp_all
  have h22: "x ^ 22 / fact 22 \<le> 14301210836991 / 1000000000000000000000000000000"
    by (rule term_upper [OF h20 _ x2]) simp_all
  have l24: "62489930383 / 1000000000000000000000000000000 \<le> x ^ 24 / fact 24"
    by (rule term_lower [OF l22 _ x2]) simp_all
  have h24: "x ^ 24 / fact 24 \<le> 3905620649 / 62500000000000000000000000000"
    by (rule term_upper [OF h22 _ x2]) simp_all
  have l26: "11594259 / 50000000000000000000000000000 \<le> x ^ 26 / fact 26"
    by (rule term_lower [OF l24 _ x2]) simp_all
  have h26: "x ^ 26 / fact 26 \<le> 231885181 / 1000000000000000000000000000000"
    by (rule term_upper [OF h24 _ x2]) simp_all
  have ax: "\<bar>x\<bar> = x" by (simp add: x_def)
  have t: "\<bar>cos x - (x ^ 0 / fact 0 - x ^ 2 / fact 2 + x ^ 4 / fact 4 - x ^ 6 / fact 6 + x ^ 8 / fact 8 - x ^ 10 / fact 10 + x ^ 12 / fact 12 - x ^ 14 / fact 14 + x ^ 16 / fact 16 - x ^ 18 / fact 18 + x ^ 20 / fact 20 - x ^ 22 / fact 22 + x ^ 24 / fact 24)\<bar> \<le> x ^ 26 / fact 26"
    using cos_terms26 [of x] unfolding ax .
  have b: "10223924518938801 / 576460752303423488 < cos x" "cos x < 10223924518938803 / 576460752303423488"
    using t l0 h0 l2 h2 l4 h4 l6 h6 l8 h8 l10 h10 l12 h12 l14 h14 l16 h16 l18 h18 l20 h20 l22 h22 l24 h24 l26 h26 by linarith+
  have "double_round (cos x) = 5111962259469401 / 288230376151711744"
  proof (rule double_round_value [where e = "-6" and m = 5111962259469401 and lo = "1 / 64" and u = "1 / 288230376151711744"])
    show "1 / 64 \<le> \<bar>cos x\<bar>" using b by linarith
    show "\<bar>cos x\<bar> < 2 * (1 / 64)" using b by linarith
    show "(of_int 5111962259469401 - 1 / 2) * (1 / 288230376151711744) < cos x" using b(1) by simp
    show "cos x < (of_int 5111962259469401 + 1 / 2) * (1 / 288230376151711744)" using b(2) by simp
  qed (simp_all add: power_int_minus)
  then show ?thesis by (simp add: x_def)
qed

lemma double_sin_q_113:
  "double_round (sin (2556116190954593 / 144115188075855872)) = 5111964345258701 / 288230376151711744"
proof -
  define x :: real where "x = 2556116190954593 / 144115188075855872"
  have x2: "x * x = 6533729981660217345232587795649 / 20769187434139310514121985316880384" by (simp add: x_def)
  have l1: "2556116190954593 / 144115188075855872 \<le> x ^ 1 / fact 1" by (simp add: x_def)
  have h1: "x ^ 1 / fact 1 \<le> 2556116190954593 / 144115188075855872" by (simp add: x_def)
  have l3: "464976783761336744398613 / 500000000000000000000000000000 \<le> x ^ 3 / fact 3"
    by (rule term_lower [OF l1 _ x2]) simp_all
  have h3: "x ^ 3 / fact 3 \<le> 929953567522673488797227 / 1000000000000000000000000000000"
    by (rule term_upper [OF h1 _ x2]) simp_all
  have l5: "14627595626796767607 / 1000000000000000000000000000000 \<le> x ^ 5 / fact 5"
    by (rule term_lower [OF l3 _ x2]) simp_all
  have h5: "x ^ 5 / fact 5 \<le> 1828449453349595951 / 125000000000000000000000000000"
    by (rule term_upper [OF h3 _ x2]) simp_all
  have l7: "109563357474203 / 1000000000000000000000000000000 \<le> x ^ 7 / fact 7"
    by (rule term_lower [OF l5 _ x2]) simp_all
  have h7: "x ^ 7 / fact 7 \<le> 27390839368551 / 250000000000000000000000000000"
    by (rule term_upper [OF h5 _ x2]) simp_all
  have l9: "239356109 / 500000000000000000000000000000 \<le> x ^ 9 / fact 9"
    by (rule term_lower [OF l7 _ x2]) simp_all
  have h9: "x ^ 9 / fact 9 \<le> 478712219 / 1000000000000000000000000000000"
    by (rule term_upper [OF h7 _ x2]) simp_all
  have l11: "1369 / 1000000000000000000000000000000 \<le> x ^ 11 / fact 11"
    by (rule term_lower [OF l9 _ x2]) simp_all
  have h11: "x ^ 11 / fact 11 \<le> 137 / 100000000000000000000000000000"
    by (rule term_upper [OF h9 _ x2]) simp_all
  have l13: "0 \<le> x ^ 13 / fact 13"
    by (rule term_lower [OF l11 _ x2]) simp_all
  have h13: "x ^ 13 / fact 13 \<le> 1 / 1000000000000000000000000000000"
    by (rule term_upper [OF h11 _ x2]) simp_all
  have ax: "\<bar>x\<bar> = x" by (simp add: x_def)
  have t: "\<bar>sin x - (x ^ 1 / fact 1 - x ^ 3 / fact 3 + x ^ 5 / fact 5 - x ^ 7 / fact 7 + x ^ 9 / fact 9 - x ^ 11 / fact 11)\<bar> \<le> x ^ 13 / fact 13"
    using sin_terms13 [of x] unfolding ax .
  have b: "10223928690517401 / 576460752303423488 < sin x" "sin x < 10223928690517403 / 576460752303423488"
    using t l1 h1 l3 h3 l5 h5 l7 h7 l9 h9 l11 h11 l13 h13 by linarith+
  have "double_round (sin x) = 5111964345258701 / 288230376151711744"
  proof (rule double_round_value [where e = "-6" and m = 5111964345258701 and lo = "1 / 64" and u = "1 / 288230376151711744"])
    show "1 / 64 \<le> \<bar>sin x\<bar>" using b by linarith
    show "\<bar>sin x\<bar> < 2 * (1 / 64)" using b by linarith
    show "(of_int 5111964345258701 - 1 / 2) * (1 / 288230376151711744) < sin x" using b(1) by simp
    show "sin x < (of_int 5111964345258701 + 1 / 2) * (1 / 288230376151711744)" using b(2) by simp
  qed (simp_all add: power_int_minus)
  then show ?thesis by (simp add: x_def)
qed

lemma double_cos_q_113:
  "double_round (cos (2556116190954593 / 144115188075855872)) = 4502891257517101 / 4503599627370496"
proof -
  define x :: real where "x = 2556116190954593 / 144115188075855872"
  have x2: "x * x = 6533729981660217345232587795649 / 20769187434139310514121985316880384" by (simp add: x_def)
  have l0: "1 \<le> x ^ 0 / fact 0" by (simp add: x_def)
  have h0: "x ^ 0 / fact 0 \<le> 1" by (simp add: x_def)
  have l2: "78646913876375487011357749 / 500000000000000000000000000000 \<le> x ^ 2 / fact 2"
    by (rule term_lower [OF l0 _ x2]) simp_all
  have h2: "x ^ 2 / fact 2 \<le> 157293827752750974022715499 / 1000000000000000000000000000000"
    by (rule term_upper [OF h0 _ x2]) simp_all
  have l4: "2061779020759341044221 / 500000000000000000000000000000 \<le> x ^ 4 / fact 4"
    by (rule term_lower [OF l2 _ x2]) simp_all
  have h4: "x ^ 4 / fact 4 \<le> 4123558041518682088443 / 1000000000000000000000000000000"
    by (rule term_upper [OF h2 _ x2]) simp_all
  have l6: "43240681887407381 / 1000000000000000000000000000000 \<le> x ^ 6 / fact 6"
    by (rule term_lower [OF l4 _ x2]) simp_all
  have h6: "x ^ 6 / fact 6 \<le> 21620340943703691 / 500000000000000000000000000000"
    by (rule term_upper [OF h4 _ x2]) simp_all
  have l8: "242910441739 / 1000000000000000000000000000000 \<le> x ^ 8 / fact 8"
    by (rule term_lower [OF l6 _ x2]) simp_all
  have h8: "x ^ 8 / fact 8 \<le> 12145522087 / 50000000000000000000000000000"
    by (rule term_upper [OF h6 _ x2]) simp_all
  have l10: "849073 / 1000000000000000000000000000000 \<le> x ^ 10 / fact 10"
    by (rule term_lower [OF l8 _ x2]) simp_all
  have h10: "x ^ 10 / fact 10 \<le> 424537 / 500000000000000000000000000000"
    by (rule term_upper [OF h8 _ x2]) simp_all
  have l12: "1 / 500000000000000000000000000000 \<le> x ^ 12 / fact 12"
    by (rule term_lower [OF l10 _ x2]) simp_all
  have h12: "x ^ 12 / fact 12 \<le> 3 / 1000000000000000000000000000000"
    by (rule term_upper [OF h10 _ x2]) simp_all
  have l14: "0 \<le> x ^ 14 / fact 14"
    by (rule term_lower [OF l12 _ x2]) simp_all
  have h14: "x ^ 14 / fact 14 \<le> 1 / 1000000000000000000000000000000"
    by (rule term_upper [OF h12 _ x2]) simp_all
  have ax: "\<bar>x\<bar> = x" by (simp add: x_def)
  have t: "\<bar>cos x - (x ^ 0 / fact 0 - x ^ 2 / fact 2 + x ^ 4 / fact 4 - x ^ 6 / fact 6 + x ^ 8 / fact 8 - x ^ 10 / fact 10 + x ^ 12 / fact 12)\<bar> \<le> x ^ 14 / fact 14"
    using cos_terms14 [of x] unfolding ax .
  have b: "18011565030068403 / 18014398509481984 < cos x" "cos x < 18011565030068405 / 18014398509481984"
    using t l0 h0 l2 h2 l4 h4 l6 h6 l8 h8 l10 h10 l12 h12 l14 h14 by linarith+
  have "double_round (cos x) = 4502891257517101 / 4503599627370496"
  proof (rule double_round_value [where e = "-1" and m = 9005782515034202 and lo = "1 / 2" and u = "1 / 9007199254740992"])
    show "1 / 2 \<le> \<bar>cos x\<bar>" using b by linarith
    show "\<bar>cos x\<bar> < 2 * (1 / 2)" using b by linarith
    show "(of_int 9005782515034202 - 1 / 2) * (1 / 9007199254740992) < cos x" using b(1) by simp
    show "cos x < (of_int 9005782515034202 + 1 / 2) * (1 / 9007199254740992)" using b(2) by simp
  qed (simp_all add: power_int_minus)
  then show ?thesis by (simp add: x_def)
qed

lemma double_p1_113:
  "double_round (2251445629047603 / 2251799813685248 * (4502891257517101 / 4503599627370496)) = 4502182999661005 / 4503599627370496"
  by (rule double_round_value [where e = "-1" and m = 9004365999322010 and lo = "1 / 2" and u = "1 / 9007199254740992"])
    (simp_all add: power_int_minus)

lemma double_p2_113:
  "double_round (5111962259469401 / 288230376151711744 * (5111964345258701 / 288230376151711744)) = 2901253549038661 / 9223372036854775808"
  by (rule double_round_value [where e = "-12" and m = 5802507098077322 and lo = "1 / 4096" and u = "1 / 18446744073709551616"])
    (simp_all add: power_int_minus)

lemma double_p3_113:
  "double_round (2901253549038661 / 9223372036854775808 * 1) = 2901253549038661 / 9223372036854775808"
  by (rule double_round_value [where e = "-12" and m = 5802507098077322 and lo = "1 / 4096" and u = "1 / 18446744073709551616"])
    (simp_all add: power_int_minus)

lemma double_arg_113:
  "double_round (4502182999661005 / 4503599627370496 + 2901253549038661 / 9223372036854775808) = 4503599627370497 / 4503599627370496"
  by (rule double_round_value [where e = "0" and m = 4503599627370497 and lo = "1" and u = "1 / 4503599627370496"])
    (simp_all add: power_int_minus)

lemma raises_113:
  "calc_endpoint_haversine_double (double_round (88983767 / 1000000)) 0 0 113 = Inl ValueError"
proof -
  have "py_asin (4503599627370497 / 4503599627370496) = Inl ValueError" by (simp add: py_asin_def)
  then show ?thesis
    unfolding calc_endpoint_haversine_double_def calc_endpoint_haversine_rounded_def Let_def
      double_pi double_deg_to_rad double_lat_113 double_lat1_113 double_q_113 double_zero
      double_sin_lat1_113 double_cos_lat1_113 double_sin_q_113 double_cos_q_113
      cos_zero double_one double_p1_113 double_p2_113 double_p3_113 double_arg_113
    by simp
qed

section \<open>The properties of the specification\<close>

text \<open>
  C1 fails near the pole. The source normalises \<open>diff = |dir - az|\<close> by
  \<open>if diff > pi: diff = 2 * pi - diff\<close>; with \<open>dir\<close> in \<open>(-pi, pi]\<close> and \<open>az\<close> up to
  \<open>2 * pi\<close> the difference can exceed a full turn, and then the result is negative and
  passes the test \<open>diff < pi / 2\<close> whatever the real deviation is (the two values agree
  when \<open>|dir - az| \<le> 2 * pi\<close>, see \<open>angle_diff_is_wrapped\<close>). For a station at
  latitude 89.9 with bearing 359, a station at \<open>(80, -1)\<close> with bearing 0 and a
  projection of 500 km, a point is returned although the deviation between the first
  station's bearing and the direction to that point, normalised into \<open>[0, pi]\<close>, is
  more than 90 degrees; the value the source compares with \<open>pi / 2\<close> is negative.
\<close>

theorem forward_filter_accepts_bearing_behind:
  "calculate_all_intersections [polar_station, arctic_station] 500 = Inr [(89.9 - polar_r, - 1)]
   \<and> pair_intersection polar_station arctic_station 500 = Inr (Some (89.9 - polar_r, - 1))
   \<and> 1 / 45 < polar_r \<and> polar_r < 1
   \<and> pi / 2 < wrapped_deviation
        (atan2 (- 1 - lon polar_station) (89.9 - polar_r - lat polar_station))
        (radians (azimuth polar_station))
   \<and> angle_diff
        (atan2 (- 1 - lon polar_station) (89.9 - polar_r - lat polar_station))
        (radians (azimuth polar_station)) < 0"
proof -
  note d = polar_dir
  define a where "a = arctan (1 / polar_r)"
  have a: "0 < a" "a < pi / 2 - pi / 180" using d by (simp_all add: a_def)
  have dir: "atan2 (- 1 - lon polar_station) (89.9 - polar_r - lat polar_station) = a - pi"
    using d(1) by (simp add: polar_station_def new_station_def a_def)
  have az: "radians (azimuth polar_station) = 2 * pi - pi / 180"
    by (simp add: polar_station_def new_station_def radians_def field_simps)
  have "py_fmod (a - pi - (2 * pi - pi / 180)) (2 * pi)
      = a - pi - (2 * pi - pi / 180) + of_int 2 * (2 * pi)"
    using a by (intro py_fmod_shift) simp_all
  then have w: "wrapped_deviation (a - pi) (2 * pi - pi / 180) = pi - pi / 180 - a"
    using a by (simp add: wrapped_deviation_def Let_def)
  have "\<bar>a - pi - (2 * pi - pi / 180)\<bar> = 3 * pi - pi / 180 - a" using a by (simp add: abs_if)
  then have c: "angle_diff (a - pi) (2 * pi - pi / 180) = a + pi / 180 - pi"
    using a by (simp add: angle_diff_def Let_def)
  have l: "calculate_all_intersections [polar_station, arctic_station] 500
      = Inr [(89.9 - polar_r, - 1)]"
    by (simp add: two_stations_intersections polar_pair)
  show ?thesis
    unfolding dir az w c l using polar_pair polar_r_bounds a by simp
qed

text \<open>
  C2 fails in the two-point branch. The radius is the distance from the midpoint to the
  first point only, and \<^verbatim>\<open>distance_km\<close> scales the longitude by the cosine of the mean
  latitude of its two arguments, which differs for the two points. For the points
  \<open>(52.5, 0)\<close> and \<open>(22.5, 10)\<close> the second point lies more than 22 km outside the
  returned circle, while the first is inside. (With three or more points the final
  verification pass gives containment, see \<open>enclosing_three_or_more\<close>.)
\<close>

theorem two_point_circle_misses_second:
  "(case smallest_enclosing_circle [(105 / 2, 0), (45 / 2, 10)] of
      (clat, clon, r) \<Rightarrow>
        r + 22 < distance_km clat clon (45 / 2) 10
        \<and> distance_km clat clon (105 / 2) 0 \<le> r)"
proof -
  have a: "sqrt (5852475 / 2) < 17107 / 10"
    by (intro real_less_lsqrt) (simp_all add: power2_eq_square)
  have b: "17329 / 10 < sqrt (12012975 / 4)"
    by (intro real_less_rsqrt) (simp add: power2_eq_square)
  have c: "1 / 2 \<le> sqrt (5852475 / 2)"
    by (intro real_le_rsqrt) (simp add: power2_eq_square)
  have m: "max (sqrt (5852475 / 2)) 0.5 = sqrt (5852475 / 2)" using c by simp
  show ?thesis
    unfolding two_point_circle m using a b by (simp add: dist_to_first dist_to_second)
qed



text \<open>
  C4. For every decimal-degree value in the range of its axis (\<open>[-90, 90]\<close> for a
  latitude, \<open>[-180, 180]\<close> for a longitude), \<^verbatim>\<open>dd_to_dms\<close> followed by
  \<^verbatim>\<open>dms_to_dd\<close> returns a value within \<open>1e-4\<close> degrees of the original.
\<close>

theorem dms_roundtrip:
  assumes "valid_dd coord_type dd"
  shows "\<exists>v. (case dd_to_dms dd coord_type of (deg, minutes, seconds, direction) \<Rightarrow>
           dms_to_dd deg minutes seconds direction) = Inr v \<and> \<bar>v - dd\<bar> \<le> 1 / 10 ^ 4"
proof -
  obtain v where "(case dd_to_dms dd coord_type of (deg, minutes, seconds, direction) \<Rightarrow>
           dms_to_dd deg minutes seconds direction) = Inr v" and "\<bar>v - dd\<bar> \<le> 2 / 10 ^ 6"
    using roundtrip_general by blast
  then show ?thesis by (intro exI [of _ v]) simp
qed

theorem dms_roundtrip_witness:
  "valid_dd ''lat'' 48.8566 \<and>
   dd_to_dms 48.8566 ''lat'' = (48, 51, 23.76, ''N'') \<and>
   (\<exists>v. (case dd_to_dms 48.8566 ''lat'' of (deg, minutes, seconds, direction) \<Rightarrow>
           dms_to_dd deg minutes seconds direction) = Inr v \<and> \<bar>v - 48.8566\<bar> \<le> 1 / 10 ^ 4)"
proof -
  have v: "valid_dd ''lat'' 48.8566" by (simp add: valid_dd_def)
  have d: "dd_to_dms 48.8566 ''lat'' = (48, 51, 23.76, ''N'')"
    by (simp add: dd_to_dms_def py_int_def py_round_def round_half_even_def Let_def)
  show ?thesis using v d dms_roundtrip [OF v] by blast
qed

text \<open>
  C5 fails in the code, and the user manual (\<^verbatim>\<open>src/generate_manual.py\<close>, lines 403 to
  405) promises what C5 states: the calculation is independent of the display length of
  the bearings. A great circle is in general not a straight line in the
  \<open>(lon, lat)\<close> plane, so the chord from a station to its projected endpoint turns with
  the projection distance, and the crossing of two chords moves with it. For a station
  at \<open>(45, 0)\<close> with bearing 90 and a station at \<open>(44.5, 0.5)\<close> with bearing 0, the
  projection distances 100 km and 500 km both give a valid crossing at longitude 0.5, and
  both times the crossing lies on both chords, so nothing is clipped; but its latitude is
  above 44.995 for 100 km and below 44.995 for 500 km.
\<close>

theorem projection_distance_changes_point:
  "calculate_all_intersections [station_mid_east, station_mid_north] 100
     = Inr [(45 - drop_ratio 100 / 2, 1 / 2)]
   \<and> calculate_all_intersections [station_mid_east, station_mid_north] 500
     = Inr [(45 - drop_ratio 500 / 2, 1 / 2)]
   \<and> within_chords station_mid_east station_mid_north 100 (45 - drop_ratio 100 / 2, 1 / 2)
   \<and> within_chords station_mid_east station_mid_north 500 (45 - drop_ratio 500 / 2, 1 / 2)
   \<and> 44995 / 1000 < 45 - drop_ratio 100 / 2 \<and> 45 - drop_ratio 500 / 2 < 44995 / 1000
   \<and> calculate_all_intersections [station_mid_east, station_mid_north] 100
       \<noteq> calculate_all_intersections [station_mid_east, station_mid_north] 500"
proof -
  have a: "(100::real) / 6371 < pi / 4" "(500::real) / 6371 < pi / 4"
    using pi_quarter_bounds by simp_all
  have p1: "pair_intersection station_mid_east station_mid_north 100
      = Inr (Some (45 - drop_ratio 100 / 2, 1 / 2))"
    using mid_pair(1) [of 100] a by simp
  have p5: "pair_intersection station_mid_east station_mid_north 500
      = Inr (Some (45 - drop_ratio 500 / 2, 1 / 2))"
    using mid_pair(1) [of 500] a by simp
  have c1: "calculate_all_intersections [station_mid_east, station_mid_north] 100
      = Inr [(45 - drop_ratio 100 / 2, 1 / 2)]"
    unfolding two_stations_intersections p1 by simp
  have c5: "calculate_all_intersections [station_mid_east, station_mid_north] 500
      = Inr [(45 - drop_ratio 500 / 2, 1 / 2)]"
    unfolding two_stations_intersections p5 by simp
  have w1: "within_chords station_mid_east station_mid_north 100 (45 - drop_ratio 100 / 2, 1 / 2)"
    using mid_pair(2) [of 100] a by simp
  have w5: "within_chords station_mid_east station_mid_north 500 (45 - drop_ratio 500 / 2, 1 / 2)"
    using mid_pair(2) [of 500] a by simp
  have b1: "44995 / 1000 < 45 - drop_ratio 100 / 2" using drop_ratio_100(2) by simp
  have b5: "45 - drop_ratio 500 / 2 < 44995 / 1000" using drop_ratio_500 by simp
  have ne: "drop_ratio 100 \<noteq> drop_ratio 500" using drop_ratio_100(2) drop_ratio_500 by linarith
  have n: "calculate_all_intersections [station_mid_east, station_mid_north] 100
      \<noteq> calculate_all_intersections [station_mid_east, station_mid_north] 500"
    unfolding c1 c5 using ne by simp
  show ?thesis using c1 c5 w1 w5 b1 b5 n by blast
qed
text \<open>
  C6 (as amended). \<^verbatim>\<open>dms_to_dd\<close> checks no range and raises nothing: for every
  degree, minute, second and hemisphere it returns a value, which is
  \<open>deg + min / 60 + sec / 3600\<close>, negated for the hemispheres S and W, rounded to six
  decimals, hence within \<open>5e-7\<close> of that sum.
\<close>

theorem dms_to_dd_total:
  "\<exists>v. dms_to_dd deg minutes seconds direction = Inr v \<and>
       v = py_round (dms_sign direction * (of_int deg + of_int minutes / 60 + seconds / 3600)) 6 \<and>
       \<bar>v - dms_sign direction * (of_int deg + of_int minutes / 60 + seconds / 3600)\<bar>
         \<le> 5 / 10 ^ 7"
proof -
  have "\<bar>py_round (dms_sign direction * (of_int deg + of_int minutes / 60 + seconds / 3600)) 6
          - dms_sign direction * (of_int deg + of_int minutes / 60 + seconds / 3600)\<bar>
        \<le> 1 / (2 * 10 ^ 6)"
    by (rule py_round_err)
  then show ?thesis by (simp add: dms_to_dd_value)
qed

text \<open>
  C6 as stated fails: with degrees \<open>-1\<close>, minutes \<open>60\<close> and seconds \<open>3600\<close>, all three
  out of range, the function returns the value \<open>1\<close> and no error.
\<close>

theorem dms_to_dd_no_validation:
  "dms_to_dd (- 1) 60 3600 ''N'' = Inr 1 \<and> dms_to_dd (- 1) 60 3600 ''N'' \<noteq> Inl InvalidInput"
  by (simp add: dms_to_dd_def py_round_def round_half_even_def)

text \<open>
  C7 as stated fails: for Paris the zone is 31 and the band letter is \<open>U\<close>, but the
  easting is not within 500 m of 448,000 m and the northing is not within 500 m of
  5,411,000 m.
\<close>

theorem utm_paris_not_near_448000:
  "(case lat_lon_to_utm 48.8566 2.3522 of
      Inl err \<Rightarrow> False
    | Inr (zone, letter, easting, northing) \<Rightarrow>
        zone = 31 \<and> letter = CHR ''U''
        \<and> \<not> \<bar>easting - 448000\<bar> \<le> 500 \<and> \<not> \<bar>northing - 5411000\<bar> \<le> 500)"
  unfolding utm_paris using paris_easting paris_northing by simp

text \<open>
  C7 (as amended). \<^verbatim>\<open>lat_lon_to_utm(48.8566, 2.3522)\<close> yields zone 31, band letter
  \<open>U\<close>, an easting between 452,472 m and 452,492 m, hence within 500 m of 452,500 m,
  and a northing between 5,411,686 m and 5,411,766 m, hence within 500 m of 5,411,700 m.
\<close>

theorem utm_paris_position:
  "\<exists>easting northing.
      lat_lon_to_utm 48.8566 2.3522 = Inr (31, CHR ''U'', easting, northing)
      \<and> 452472 \<le> easting \<and> easting \<le> 452492
      \<and> 5411686 \<le> northing \<and> northing \<le> 5411766
      \<and> \<bar>easting - 452500\<bar> \<le> 500 \<and> \<bar>northing - 5411700\<bar> \<le> 500"
  unfolding utm_paris using paris_easting paris_northing by simp

text \<open>
  C8 as stated fails. The longitude \<open>-185\<close> is outside \<open>[-180, 180]\<close>; on the equator
  \<^verbatim>\<open>lat_lon_to_utm\<close> accepts it, gives zone 1 and a negative easting, and
  \<^verbatim>\<open>lat_lon_to_mgrs\<close> clamps the negative column index to 0 (letter \<open>A\<close>): no error
  is raised and a second value is clamped silently.
\<close>

theorem mgrs_clamps_without_error:
  "(case lat_lon_to_utm 0 (- 185) of
      Inl err \<Rightarrow> False
    | Inr (zone, letter, easting, northing) \<Rightarrow>
        zone = 1 \<and> py_int (easting / 100000) - 1 < 0 \<and> mgrs_col_idx easting = 0)
   \<and> (case lat_lon_to_mgrs 0 (- 185) of
      Inl err \<Rightarrow> False
    | Inr (zone, letter, col_letter, row_letter, e_100k, n_100k) \<Rightarrow>
        zone = 1 \<and> col_letter = CHR ''A'')"
proof -
  obtain z c e n where u: "lat_lon_to_utm 0 (- 185) = Inr (z, c, e, n)"
    using lat_lon_to_utm_total by blast
  then have v: "z = 1" "e < 0" using easting_west_of_range by blast+
  obtain k where m: "lat_lon_to_mgrs 0 (- 185) = Inr (1, CHR ''N'', CHR ''A'', CHR ''A'', k, 0)"
    using mgrs_west_of_range by blast
  show ?thesis
    unfolding u m using v col_idx_clamped_low [of e] by simp
qed

text \<open>
  C8 (as amended). The UTM and MGRS conversions validate nothing and never fail: for
  every latitude and longitude \<^verbatim>\<open>lat_lon_to_utm\<close> returns the zone number computed
  from the longitude, unchecked, and \<^verbatim>\<open>lat_lon_to_mgrs\<close> returns a grid reference.
  Two values are clamped: the band letter to \<open>Z\<close> outside \<open>[-80, 84]\<close>, and the
  100 km column index into \<open>[0, 7]\<close> (0 for an easting below 100 km, 7 from 900 km on).
\<close>

theorem utm_mgrs_never_fail:
  "(\<exists>c e n. lat_lon_to_utm la lo = Inr (utm_zone la lo, c, e, n))
   \<and> (\<exists>m. lat_lon_to_mgrs la lo = Inr m)
   \<and> 0 \<le> mgrs_col_idx x \<and> mgrs_col_idx x \<le> 7
   \<and> (x < 100000 \<longrightarrow> mgrs_col_idx x = 0)
   \<and> (900000 \<le> x \<longrightarrow> mgrs_col_idx x = 7)
   \<and> (la < - 80 \<or> 84 < la \<longrightarrow> utm_letter la = Inr (CHR ''Z''))"
proof -
  obtain z c e n where u: "lat_lon_to_utm la lo = Inr (z, c, e, n)"
    using lat_lon_to_utm_total by blast
  then have "z = utm_zone la lo" using utm_zone_kept by blast
  then have a: "\<exists>c e n. lat_lon_to_utm la lo = Inr (utm_zone la lo, c, e, n)" using u by blast
  have b: "\<exists>m. lat_lon_to_mgrs la lo = Inr m" by (rule lat_lon_to_mgrs_total)
  have c: "la < - 80 \<or> 84 < la \<longrightarrow> utm_letter la = Inr (CHR ''Z'')"
    by (auto simp: utm_letter_def)
  show ?thesis
    using a b c mgrs_col_idx_range [of x] col_idx_low [of x] col_idx_high [of x] by blast
qed

theorem utm_mgrs_never_fail_witness:
  "mgrs_col_idx 50000 = 0 \<and> mgrs_col_idx 950000 = 7 \<and> utm_letter 90 = Inr (CHR ''Z'')
   \<and> (\<exists>c e n. lat_lon_to_utm 90 200 = Inr (64, c, e, n))
   \<and> (\<exists>m. lat_lon_to_mgrs 90 200 = Inr m)"
proof -
  have z: "utm_zone 90 200 = 64" by (simp add: utm_zone_def py_int_def)
  have a: "mgrs_col_idx 50000 = 0" using utm_mgrs_never_fail [of 90 200 50000] by simp
  have b: "mgrs_col_idx 950000 = 7" using utm_mgrs_never_fail [of 90 200 950000] by simp
  have c: "utm_letter 90 = Inr (CHR ''Z'')" using utm_mgrs_never_fail [of 90 200 50000] by simp
  have d: "\<exists>c e n. lat_lon_to_utm 90 200 = Inr (64, c, e, n)"
    using utm_mgrs_never_fail [of 90 200 50000] unfolding z by blast
  have e: "\<exists>m. lat_lon_to_mgrs 90 200 = Inr m"
    using utm_mgrs_never_fail [of 90 200 50000] by blast
  from a b c d e show ?thesis by blast
qed

text \<open>
  C9 fails in the code. In exact arithmetic the argument of \<^verbatim>\<open>asin\<close> is always in
  \<open>[-1, 1]\<close> and every input gives a point, but the doubles of the program round every
  operation and nothing clamps the sum. Two inputs within all ranges: the latitude
  86.096944, which \<^verbatim>\<open>dms_to_dd\<close> returns for the spin-box values 86 degrees 5 minutes
  49.0 seconds north, with the bearing 0 and the projection distance 434 km; and the
  latitude 88.983767 with the bearing 0 and the distance 113 km. In both the rounded
  sum is the double just above 1, printed as 1.0000000000000002, and \<^verbatim>\<open>math.asin\<close>
  raises ValueError: an input in range is rejected.
\<close>

theorem projection_raises_in_doubles:
  "dms_to_dd 86 5 49 ''N'' = Inr (86096944 / 1000000)
   \<and> calc_endpoint_haversine_double (double_round (86096944 / 1000000)) 0 0 434 = Inl ValueError
   \<and> calc_endpoint_haversine_double (double_round (88983767 / 1000000)) 0 0 113 = Inl ValueError
   \<and> (\<exists>p. calc_endpoint_haversine (86096944 / 1000000) 0 0 434 = Inr p)
   \<and> (\<exists>p. calc_endpoint_haversine (88983767 / 1000000) 0 0 113 = Inr p)"
proof -
  have "round_half_even (86096944 + 4 / 9) = 86096944"
    by (rule round_half_even_between) simp_all
  moreover have "(86 + 5 / 60 + 49 / 3600) * 10 ^ 6 = (86096944 + 4 / 9 :: real)" by simp
  ultimately have "dms_to_dd 86 5 49 ''N'' = Inr (86096944 / 1000000)"
    unfolding dms_to_dd_def py_round_def Let_def by simp
  then show ?thesis using raises_434 raises_113 by (simp add: calc_endpoint_value)
qed
text \<open>
  C10. For every latitude in \<open>[-80, 84]\<close> the index \<open>int((lat + 80) / 8)\<close> lies in
  \<open>[0, 20]\<close> and the lookup in the 21-character table returns a letter; at \<open>lat = 84\<close>
  it returns \<open>X\<close>; outside \<open>[-80, 84]\<close> the letter is \<open>Z\<close>, with no error.
\<close>

theorem utm_letter_in_bounds:
  "(- 80 \<le> la \<and> la \<le> 84 \<longrightarrow>
      0 \<le> band_index la \<and> band_index la \<le> 20 \<and>
      utm_letter la = Inr (''CDEFGHJKLMNPQRSTUVWXX'' ! nat (band_index la)))
   \<and> utm_letter 84 = Inr (CHR ''X'')
   \<and> (la < - 80 \<or> 84 < la \<longrightarrow> utm_letter la = Inr (CHR ''Z''))"
proof -
  have idx: "0 \<le> band_index la \<and> band_index la \<le> 20" if "- 80 \<le> la" "la \<le> 84"
  proof -
    have nn: "0 \<le> (la + 80) / 8" using that by simp
    have "(la + 80) / 8 \<le> 20.5" using that by simp
    then have "\<lfloor>(la + 80) / 8\<rfloor> \<le> 20" by linarith
    moreover have "0 \<le> \<lfloor>(la + 80) / 8\<rfloor>" using nn by simp
    ultimately show ?thesis using nn by (simp add: band_index_def py_int_def)
  qed
  have a: "- 80 \<le> la \<and> la \<le> 84 \<longrightarrow>
      0 \<le> band_index la \<and> band_index la \<le> 20 \<and>
      utm_letter la = Inr (''CDEFGHJKLMNPQRSTUVWXX'' ! nat (band_index la))"
    using idx by (auto simp: utm_letter_def py_index_def Let_def)
  have "band_index 84 = 20" by (simp add: band_index_def py_int_def)
  then have b: "utm_letter 84 = Inr (CHR ''X'')"
    by (simp add: utm_letter_def py_index_def Let_def)
  have c: "la < - 80 \<or> 84 < la \<longrightarrow> utm_letter la = Inr (CHR ''Z'')"
    by (auto simp: utm_letter_def)
  from a b c show ?thesis by blast
qed

theorem utm_letter_in_bounds_witness:
  "band_index 0 = 10 \<and> utm_letter 0 = Inr (CHR ''N'') \<and> utm_letter 84 = Inr (CHR ''X'')
   \<and> utm_letter 90 = Inr (CHR ''Z'')"
proof -
  have i: "band_index 0 = 10" by (simp add: band_index_def py_int_def)
  have "utm_letter 0 = Inr (''CDEFGHJKLMNPQRSTUVWXX'' ! nat (band_index 0))"
    using utm_letter_in_bounds [of 0] by simp
  then have n: "utm_letter 0 = Inr (CHR ''N'')" by (simp add: i)
  have z: "utm_letter 90 = Inr (CHR ''Z'')" using utm_letter_in_bounds [of 90] by simp
  show ?thesis using i n z utm_letter_in_bounds [of 0] by simp
qed

end
